theory Spec2Isabelle
  imports Main "HOL-Library.Word" "HOL-Library.Multiset" "HOL-Library.Signed_Division"
begin

unbundle bit_operations_syntax

section \<open>The CART driver: data model\<close>

text \<open>
  A shallow embedding of the three layers of the driver: the register codec of
  \<^verbatim>\<open>cart_driver.c\<close>, the frame cache of \<^verbatim>\<open>cart_cache.c\<close> and the file
  operations of \<^verbatim>\<open>cart_driver.c\<close> over the bus client of \<^verbatim>\<open>cart_client.c\<close>.
  C globals become fields of a state record that every operation takes and returns;
  a function that returns a status code returns the pair of the code and the new state.
\<close>

type_synonym byte = "8 word"

subsection \<open>Register codec\<close>

text \<open>The packed register structure \<^verbatim>\<open>regstate\<close>: two 8-bit and two 16-bit fields.\<close>

record regs =
  kyOne :: "8 word"
  ctOne :: "16 word"
  fmOne :: "16 word"
  rt :: "8 word"

text \<open>
  \<^verbatim>\<open>generateBusRequest\<close> widens each register to 64 bits, shifts it into place and
  adds it to the result; the additions are those of \<^verbatim>\<open>uint64_t\<close>.
\<close>

definition generateBusRequest :: "regs \<Rightarrow> 64 word" where
  "generateBusRequest r =
     (let toReturn = (0 :: 64 word);
          temp = (ucast (kyOne r) :: 64 word);
          temp = push_bit 56 temp;
          toReturn = temp;
          temp = (ucast (ctOne r) :: 64 word);
          temp = push_bit 31 temp;
          toReturn = toReturn + temp;
          temp = (ucast (fmOne r) :: 64 word);
          temp = push_bit 15 temp;
          toReturn = toReturn + temp
      in toReturn)"

text \<open>
  \<^verbatim>\<open>readBusResponse\<close> masks each field, shifts it down and stores it in a register of
  the field's width (the narrowing assignment keeps the low bits).
\<close>

definition readBusResponse :: "64 word \<Rightarrow> regs" where
  "readBusResponse busResponse =
     \<lparr> kyOne = ucast (drop_bit 56 (busResponse AND 0xff00000000000000)),
       ctOne = ucast (drop_bit 31 (busResponse AND 0x7fff80000000)),
       fmOne = ucast (drop_bit 15 (busResponse AND 0x7fff8000)),
       rt = ucast (drop_bit 47 (busResponse AND 0x800000000000)) \<rparr>"

text \<open>
  Modelled from the spec: \<^verbatim>\<open>htonll64\<close>, the conversion of a register word to network
  byte order, is declared in \<^verbatim>\<open>cart_network.h\<close>, which is not among the sources. The
  spec says that the word is transmitted big-endian: the most significant byte first.
\<close>

definition htonll64 :: "64 word \<Rightarrow> byte list" where
  "htonll64 w = map (\<lambda>k. ucast (drop_bit (8 * k) w)) (rev [0..<8])"

subsection \<open>Frame cache\<close>

text \<open>
  The cache is an array of \<^verbatim>\<open>myMaxFrames\<close> entries; the entries at the indices
  \<^verbatim>\<open>numberOfUnoccupiedFrames\<close> and above are occupied. The sizes and the indices are
  natural numbers here: \<^verbatim>\<open>set_cart_cache_size\<close> stores its \<^verbatim>\<open>uint32_t\<close> argument in
  two \<^verbatim>\<open>int\<close>s, which hold the same value for every capacity below \<open>2 ^ 31\<close>, and
  the theorems are about those capacities. The fields of an entry are integers as in
  the structure; \<^verbatim>\<open>CartridgeIndex\<close> and \<^verbatim>\<open>CartFrameIndex\<close> are declared in
  \<^verbatim>\<open>cart_controller.h\<close>, which is not among the sources, and a key is passed as the
  integers it is compared with.
\<close>

record cachedFrame =
  frame :: int
  cartridge :: int
  cache :: "byte list"
  priority :: int

record cache_state =
  myCache :: "cachedFrame list"
  myMaxFrames :: nat
  numberOfUnoccupiedFrames :: nat

definition set_cart_cache_size :: "nat \<Rightarrow> cache_state \<Rightarrow> int \<times> cache_state" where
  "set_cart_cache_size max_frames s =
     (0, s\<lparr>myMaxFrames := max_frames, numberOfUnoccupiedFrames := max_frames\<rparr>)"

text \<open>
  \<^verbatim>\<open>init_cart_cache\<close> allocates the array and writes nothing into it. The argument
  is the result of \<^verbatim>\<open>malloc\<close>: \<open>None\<close> for a null pointer, otherwise the contents
  that the fresh memory happens to hold.
\<close>

definition init_cart_cache :: "(nat \<Rightarrow> cachedFrame) option \<Rightarrow> cache_state \<Rightarrow> int \<times> cache_state" where
  "init_cart_cache heap s =
     (case heap of
        None \<Rightarrow> (-1, s\<lparr>myCache := []\<rparr>)
      | Some m \<Rightarrow> (0, s\<lparr>myCache := map m [0..<myMaxFrames s]\<rparr>))"

text \<open>
  Every loop of the cache is \<^verbatim>\<open>for(i = myMaxFrames - 1; i >= numberOfUnoccupiedFrames; i--)\<close>:
  it visits the occupied indices from the highest down.
\<close>

definition scan_order :: "cache_state \<Rightarrow> nat list" where
  "scan_order s = rev [numberOfUnoccupiedFrames s..<myMaxFrames s]"

text \<open>One iteration of the loop of \<^verbatim>\<open>adjust_priority\<close>, then the loop.\<close>

definition adjust_step :: "nat \<Rightarrow> int \<Rightarrow> nat \<Rightarrow> cachedFrame list \<Rightarrow> cachedFrame list" where
  "adjust_step exempt abovePriority i c =
     (if i \<noteq> exempt \<and> priority (c ! i) < abovePriority
      then c[i := (c ! i)\<lparr>priority := priority (c ! i) + 1\<rparr>]
      else c)"

definition adjust_priority :: "nat \<Rightarrow> int \<Rightarrow> cache_state \<Rightarrow> int \<times> cache_state" where
  "adjust_priority exempt abovePriority s =
     (0, s\<lparr>myCache := fold (adjust_step exempt abovePriority) (scan_order s) (myCache s)\<rparr>)"

text \<open>
  The three statements that \<^verbatim>\<open>put_cart_cache\<close> (twice) and \<^verbatim>\<open>get_cart_cache\<close> run
  on the entry they found: remember its priority, set it to
  \<^verbatim>\<open>numberOfUnoccupiedFrames + 1\<close>, call \<^verbatim>\<open>adjust_priority\<close>.
\<close>

definition touch :: "nat \<Rightarrow> cache_state \<Rightarrow> cache_state" where
  "touch i s =
     (let prioritiesToAdjust = priority (myCache s ! i);
          s1 = s\<lparr>myCache := (myCache s)[i := (myCache s ! i)
                  \<lparr>priority := int (numberOfUnoccupiedFrames s) + 1\<rparr>]\<rparr>
      in snd (adjust_priority i prioritiesToAdjust s1))"

text \<open>
  \<^verbatim>\<open>put_cart_cache\<close>: a search loop that returns at the first entry with the key; the
  eviction loop when no entry is free, which returns at the first entry whose priority
  is \<^verbatim>\<open>myMaxFrames\<close> and otherwise falls through to \<^verbatim>\<open>return -1\<close>; the fill of the
  free entry below the occupied ones. \<open>buf\<close> is the frame that \<^verbatim>\<open>memcpy\<close> copies.
\<close>

definition put_cart_cache :: "int \<Rightarrow> int \<Rightarrow> byte list \<Rightarrow> cache_state \<Rightarrow> int \<times> cache_state" where
  "put_cart_cache cart frm buf s =
     (case find (\<lambda>i. frame (myCache s ! i) = frm \<and> cartridge (myCache s ! i) = cart) (scan_order s) of
        Some i \<Rightarrow>
          (let s2 = touch i s
           in (0, s2\<lparr>myCache := (myCache s2)[i := (myCache s2 ! i)\<lparr>cache := buf\<rparr>]\<rparr>))
      | None \<Rightarrow>
          if numberOfUnoccupiedFrames s = 0 then
            (case find (\<lambda>i. priority (myCache s ! i) = int (myMaxFrames s)) (scan_order s) of
               Some i \<Rightarrow>
                 (let s2 = touch i s
                  in (0, s2\<lparr>myCache := (myCache s2)[i := (myCache s2 ! i)
                           \<lparr>frame := frm, cartridge := cart, cache := buf\<rparr>]\<rparr>))
             | None \<Rightarrow> (-1, s))
          else
            (let i = numberOfUnoccupiedFrames s - 1
             in (0, s\<lparr>myCache := (myCache s)[i := (myCache s ! i)
                        \<lparr>frame := frm, cartridge := cart, cache := buf,
                         priority := int (numberOfUnoccupiedFrames s)\<rparr>],
                      numberOfUnoccupiedFrames := numberOfUnoccupiedFrames s - 1\<rparr>)))"

text \<open>\<^verbatim>\<open>get_cart_cache\<close> returns the frame of the entry (the pointer into the cache) or \<open>None\<close> for \<^verbatim>\<open>NULL\<close>.\<close>

definition get_cart_cache :: "int \<Rightarrow> int \<Rightarrow> cache_state \<Rightarrow> byte list option \<times> cache_state" where
  "get_cart_cache cart frm s =
     (case find (\<lambda>i. frame (myCache s ! i) = frm \<and> cartridge (myCache s ! i) = cart) (scan_order s) of
        Some i \<Rightarrow> (let s2 = touch i s in (Some (cache (myCache s2 ! i)), s2))
      | None \<Rightarrow> (None, s))"

text \<open>
  A run of the cache: \<^verbatim>\<open>set_cart_cache_size\<close>, \<^verbatim>\<open>init_cart_cache\<close> with a successful
  allocation, then any sequence of puts and gets.
\<close>

datatype cache_op = Put int int "byte list" | Get int int

fun apply_cache_op :: "cache_op \<Rightarrow> cache_state \<Rightarrow> cache_state" where
  "apply_cache_op (Put c f b) s = snd (put_cart_cache c f b s)"
| "apply_cache_op (Get c f) s = snd (get_cart_cache c f s)"

definition cache_after :: "nat \<Rightarrow> (nat \<Rightarrow> cachedFrame) \<Rightarrow> cache_op list \<Rightarrow> cache_state" where
  "cache_after max_frames heap ops =
     fold apply_cache_op ops
       (snd (init_cart_cache (Some heap)
          (snd (set_cart_cache_size max_frames
             \<lparr>myCache = [], myMaxFrames = 0, numberOfUnoccupiedFrames = 0\<rparr>))))"

text \<open>The occupied entries, in array order.\<close>

definition occupied :: "cache_state \<Rightarrow> cachedFrame list" where
  "occupied s = drop (numberOfUnoccupiedFrames s) (myCache s)"

text \<open>
  The invariant of the cache: the array has \<^verbatim>\<open>myMaxFrames\<close> entries, the priorities of
  the occupied entries are pairwise distinct and are exactly the integers from
  \<^verbatim>\<open>numberOfUnoccupiedFrames + 1\<close> to \<^verbatim>\<open>myMaxFrames\<close>, and no two occupied entries
  have the same key.
\<close>

definition cache_inv :: "cache_state \<Rightarrow> bool" where
  "cache_inv s \<longleftrightarrow>
     length (myCache s) = myMaxFrames s \<and>
     numberOfUnoccupiedFrames s \<le> myMaxFrames s \<and>
     inj_on (\<lambda>j. priority (myCache s ! j)) {numberOfUnoccupiedFrames s..<myMaxFrames s} \<and>
     (\<lambda>j. priority (myCache s ! j)) ` {numberOfUnoccupiedFrames s..<myMaxFrames s}
        = {int (numberOfUnoccupiedFrames s) + 1..int (myMaxFrames s)} \<and>
     inj_on (\<lambda>j. (cartridge (myCache s ! j), frame (myCache s ! j)))
        {numberOfUnoccupiedFrames s..<myMaxFrames s}"

text \<open>What a touch of the entry with priority \<open>p\<close> does to a priority \<open>q\<close>.\<close>

definition rotate_priority :: "int \<Rightarrow> int \<Rightarrow> int \<Rightarrow> int" where
  "rotate_priority lo p q = (if q = p then lo else if q < p then q + 1 else q)"

text \<open>A fresh allocation that happens to be zeroed, for the concrete runs below.\<close>

definition zero_heap :: "nat \<Rightarrow> cachedFrame" where
  "zero_heap i = \<lparr>frame = 0, cartridge = 0, cache = [], priority = 0\<rparr>"

text \<open>
  The entry with key \<open>(c, f)\<close> is the freshest of the cache: an occupied entry has the
  key, every occupied entry with the key has priority \<^verbatim>\<open>numberOfUnoccupiedFrames + 1\<close>,
  and no occupied entry has a smaller priority.
\<close>

definition freshest :: "int \<Rightarrow> int \<Rightarrow> cache_state \<Rightarrow> bool" where
  "freshest c f t \<longleftrightarrow>
     (\<exists>e\<in>set (occupied t). cartridge e = c \<and> frame e = f) \<and>
     (\<forall>e\<in>set (occupied t). cartridge e = c \<and> frame e = f \<longrightarrow>
         priority e = int (numberOfUnoccupiedFrames t) + 1) \<and>
     (\<forall>e\<in>set (occupied t). int (numberOfUnoccupiedFrames t) + 1 \<le> priority e)"

subsection \<open>Files and the driver state\<close>

text \<open>
  The file record of \<^verbatim>\<open>cart_driver.c\<close>. The field \<^verbatim>\<open>length\<close> is \<open>file_length\<close> here.
  The two arrays of \<^verbatim>\<open>location\<close> are lists whose length is the number of elements
  allocated for them. The 32-bit and 16-bit integer fields are integers; the model
  follows the code as long as their values stay in the range of the C type.
\<close>

record location =
  cartridges :: int
  occupiedCartridges :: "int list"
  frames :: int
  occupiedFrames :: "int list"

record files =
  fileName :: string
  file_length :: int
  filePointer :: int
  location :: location
  fileHandle :: int

text \<open>
  The globals of the driver, of the cache (\<open>cache_globals\<close>) and the two ends of the
  socket. \<open>filesystem = []\<close> is the null pointer the global starts with; otherwise the
  list is the allocated array. \<open>bus_replies\<close> holds what the controller will answer,
  one register word and one frame of payload for each exchange to come; \<open>bus_requests\<close>
  collects the register words sent. Memory that the code reads before writing it holds
  \<open>uninit_int\<close> and \<open>uninit_byte\<close>.
\<close>

record driver =
  regstate :: regs
  filesystem :: "files list"
  fileSystemSize :: nat
  currentlyLoadedCartridge :: int
  nextFrame :: int
  nextCartridge :: int
  cache_globals :: cache_state
  bus_replies :: "(64 word \<times> byte list) list"
  bus_requests :: "64 word list"
  uninit_int :: int
  uninit_byte :: byte

text \<open>
  Where the C code would read or write outside an object, the model stops with a fault:
  a null pointer dereferenced, an array indexed at \<open>i\<close> with \<open>n\<close> elements allocated,
  or a byte buffer overrun by \<^verbatim>\<open>strncpy\<close> or \<^verbatim>\<open>memcpy\<close>.
\<close>

datatype fault = NullPointer | IndexOutOfBounds int nat | BufferOverrun

definition array_get :: "'a list \<Rightarrow> int \<Rightarrow> fault + 'a" where
  "array_get xs i =
     (if 0 \<le> i \<and> nat i < length xs then Inr (xs ! nat i)
      else Inl (IndexOutOfBounds i (length xs)))"

text \<open>\<^verbatim>\<open>realloc\<close> of an array of integers to \<open>n\<close> elements: the old ones are kept.\<close>

definition realloc_ints :: "int \<Rightarrow> int list \<Rightarrow> int \<Rightarrow> int list" where
  "realloc_ints fill xs n = take (nat n) xs @ replicate (nat n - length xs) fill"

text \<open>
  \<^verbatim>\<open>strncpy(dest, src, n)\<close> writes exactly \<open>n\<close> bytes: the bytes of \<open>src\<close> up to its
  first zero byte, then zero bytes. \<open>src\<close> is the source object from the pointer on;
  running off its end before a zero byte or \<open>n\<close> bytes is a fault, and so is a
  negative \<open>n\<close> (a huge \<^verbatim>\<open>size_t\<close>).
\<close>

definition strncpy_bytes :: "byte list \<Rightarrow> int \<Rightarrow> fault + byte list" where
  "strncpy_bytes src n =
     (if n < 0 then Inl BufferOverrun
      else
        (let pre = takeWhile (\<lambda>b. b \<noteq> 0) (take (nat n) src)
         in if length pre < nat n \<and> length pre = length src then Inl BufferOverrun
            else Inr (pre @ replicate (nat n - length pre) 0)))"

text \<open>\<^verbatim>\<open>strncpy(dest, &buf[off], n)\<close>.\<close>

definition strncpy_from :: "byte list \<Rightarrow> int \<Rightarrow> int \<Rightarrow> fault + byte list" where
  "strncpy_from buf off n =
     (if n = 0 then Inr []
      else if off < 0 then Inl BufferOverrun
      else strncpy_bytes (drop (nat off) buf) n)"

text \<open>Writing the bytes \<open>src\<close> into the buffer \<open>dst\<close> from offset \<open>off\<close> on.\<close>

definition store_bytes :: "byte list \<Rightarrow> int \<Rightarrow> byte list \<Rightarrow> fault + byte list" where
  "store_bytes dst off src =
     (if src = [] then Inr dst
      else if 0 \<le> off \<and> nat off + length src \<le> length dst
      then Inr (take (nat off) dst @ src @ drop (nat off + length src) dst)
      else Inl BufferOverrun)"

subsection \<open>Bus client\<close>

text \<open>
  \<^verbatim>\<open>client_cart_bus_request\<close> of \<^verbatim>\<open>cart_client.c\<close>, with \<^verbatim>\<open>CART_FRAME_SIZE\<close> as the
  parameter \<open>frame_size\<close> (the constant is defined in \<^verbatim>\<open>cart_controller.h\<close>, which is
  not among the sources). The request word is written to the socket, then the reply
  is read; for opcode 3 (read) a frame of payload follows the reply and is copied to
  the caller's buffer, which the model returns. A read from the socket that does not
  deliver (no reply left, or a payload that is not \<open>frame_size\<close> bytes) makes the
  function return -1, the word of all ones. The connection is taken to succeed. For
  opcode 4 the code sends \<open>frame_size\<close> bytes from the address of its pointer
  argument; the model does not record them.
\<close>

definition client_cart_bus_request ::
    "nat \<Rightarrow> 64 word \<Rightarrow> driver \<Rightarrow> (64 word \<times> byte list option) \<times> driver" where
  "client_cart_bus_request frame_size reg s =
     (let s1 = s\<lparr>bus_requests := bus_requests s @ [reg]\<rparr>
      in case bus_replies s of
           [] \<Rightarrow> ((- 1, None), s1)
         | (registerValue, bufValue) # rest \<Rightarrow>
             (let s2 = s1\<lparr>bus_replies := rest\<rparr>
              in if kyOne (readBusResponse reg) = 3
                 then (if length bufValue = frame_size
                       then ((registerValue, Some bufValue), s2)
                       else ((- 1, None), s2))
                 else ((registerValue, None), s2)))"

text \<open>\<^verbatim>\<open>runBusRequest\<close>: set the registers, exchange, decode the reply into the registers.\<close>

definition runBusRequest ::
    "nat \<Rightarrow> 8 word \<Rightarrow> 16 word \<Rightarrow> 16 word \<Rightarrow> driver \<Rightarrow> byte list option \<times> driver" where
  "runBusRequest frame_size ky ct fm s =
     (let s1 = s\<lparr>regstate := \<lparr>kyOne = ky, ctOne = ct, fmOne = fm, rt = 0\<rparr>\<rparr>;
          r = client_cart_bus_request frame_size (generateBusRequest (regstate s1)) s1
      in (snd (fst r), (snd r)\<lparr>regstate := readBusResponse (fst (fst r))\<rparr>))"

text \<open>
  The request word that \<^verbatim>\<open>runBusRequest\<close> sends for an opcode, a cartridge and a frame,
  and the replies whose return-code bit is 0.
\<close>

definition request :: "8 word \<Rightarrow> 16 word \<Rightarrow> 16 word \<Rightarrow> 64 word" where
  "request ky ct fm = generateBusRequest \<lparr>kyOne = ky, ctOne = ct, fmOne = fm, rt = 0\<rparr>"

definition reply_ok :: "64 word \<times> byte list \<Rightarrow> bool" where
  "reply_ok r \<longleftrightarrow> rt (readBusResponse (fst r)) = 0"

subsection \<open>Power on and power off\<close>

text \<open>
  The loop of \<^verbatim>\<open>cart_poweron\<close> over the cartridges \<open>0 .. CART_MAX_CARTRIDGES - 1\<close>,
  then the function; \<open>max_cartridges\<close> stands for the constant of the missing header
  and \<open>heap\<close> is the result of the \<^verbatim>\<open>malloc\<close> in \<^verbatim>\<open>init_cart_cache\<close>.
\<close>

fun poweron_loop :: "nat \<Rightarrow> int list \<Rightarrow> driver \<Rightarrow> int \<times> driver" where
  "poweron_loop frame_size [] s = (0, s)"
| "poweron_loop frame_size (i # is) s =
     (let s1 = snd (runBusRequest frame_size 2 (word_of_int i) 0 s)
      in if rt (regstate s1) \<noteq> 0 then (- 1, s1)
         else
           (let s2 = snd (runBusRequest frame_size 1 0 0 s1)
            in if rt (regstate s2) \<noteq> 0 then (- 1, s2)
               else poweron_loop frame_size is (s2\<lparr>currentlyLoadedCartridge := i\<rparr>)))"

definition cart_poweron ::
    "nat \<Rightarrow> nat \<Rightarrow> (nat \<Rightarrow> cachedFrame) option \<Rightarrow> driver \<Rightarrow> int \<times> driver" where
  "cart_poweron frame_size max_cartridges heap s =
     (let s1 = snd (runBusRequest frame_size 0 0 0 s)
      in if rt (regstate s1) \<noteq> 0 then (- 1, s1)
         else
           (case poweron_loop frame_size (map int [0..<max_cartridges]) s1 of
              (r, s2) \<Rightarrow>
                if r \<noteq> 0 then (- 1, s2)
                else
                  (case init_cart_cache heap (cache_globals s2) of
                     (r', c) \<Rightarrow>
                       if r' \<noteq> 0 then (- 1, s2\<lparr>cache_globals := c\<rparr>)
                       else (0, s2\<lparr>cache_globals := c\<rparr>))))"

definition close_cart_cache :: "cache_state \<Rightarrow> int \<times> cache_state" where
  "close_cart_cache c = (0, c\<lparr>myCache := []\<rparr>)"

text \<open>
  \<^verbatim>\<open>cart_poweroff\<close> starts with \<^verbatim>\<open>for(i=0; i <= fileSystemSize; i++)\<close>, which writes
  \<^verbatim>\<open>filesystem[i].fileHandle\<close> and frees the record's storage; it runs at least once.
  The array is then freed, but the pointer is not reset: the global stays non-null,
  and the model keeps the records as the loop left them.
\<close>

fun poweroff_loop :: "nat list \<Rightarrow> files list \<Rightarrow> fault + files list" where
  "poweroff_loop [] fs = Inr fs"
| "poweroff_loop (i # is) fs =
     (if fs = [] then Inl NullPointer
      else if length fs \<le> i then Inl (IndexOutOfBounds (int i) (length fs))
      else poweroff_loop is (fs[i := (fs ! i)\<lparr>fileHandle := 0\<rparr>]))"

definition cart_poweroff :: "nat \<Rightarrow> driver \<Rightarrow> fault + (int \<times> driver)" where
  "cart_poweroff frame_size s =
     (case poweroff_loop [0..<Suc (fileSystemSize s)] (filesystem s) of
        Inl e \<Rightarrow> Inl e
      | Inr fs \<Rightarrow>
          (let s1 = snd (runBusRequest frame_size 5 0 0 (s\<lparr>filesystem := fs\<rparr>))
           in if rt (regstate s1) \<noteq> 0 then Inr (- 1, s1)
              else
                (case close_cart_cache (cache_globals s1) of
                   (r, c) \<Rightarrow>
                     if r \<noteq> 0 then Inr (- 1, s1\<lparr>cache_globals := c\<rparr>)
                     else Inr (0, s1\<lparr>cache_globals := c\<rparr>))))"

subsection \<open>Open, close, seek\<close>

text \<open>
  The loop \<^verbatim>\<open>for(i=0; i <= fileSystemSize; i++)\<close> with which close, read, write and
  seek look for the record whose handle is \<open>fd\<close>; it stops at the first one.
\<close>

fun find_fd :: "files list \<Rightarrow> int \<Rightarrow> nat list \<Rightarrow> fault + nat option" where
  "find_fd fs fd [] = Inr None"
| "find_fd fs fd (i # is) =
     (if fs = [] then Inl NullPointer
      else if length fs \<le> i then Inl (IndexOutOfBounds (int i) (length fs))
      else if fileHandle (fs ! i) = fd then Inr (Some i)
      else find_fd fs fd is)"

text \<open>
  The \<^verbatim>\<open>do ... while\<close> loop of \<^verbatim>\<open>cart_open\<close>: count \<^verbatim>\<open>fileHandleAssign\<close> up until no
  record has it as its handle. It terminates because each round passes one of the
  finitely many handles.
\<close>

function free_handle :: "int list \<Rightarrow> int \<Rightarrow> int" where
  "free_handle handles fileHandleAssign =
     (if fileHandleAssign + 1 \<in> set handles
      then free_handle handles (fileHandleAssign + 1)
      else fileHandleAssign + 1)"
  by pat_completeness auto
termination
proof (relation "measure (\<lambda>(handles, n). card {h \<in> set handles. n < h})")
  show "wf (measure (\<lambda>(handles, n). card {h \<in> set handles. n < h}))"
    by simp
next
  fix handles :: "int list" and n :: int
  assume m: "n + 1 \<in> set handles"
  have "{h \<in> set handles. n + 1 < h} \<subset> {h \<in> set handles. n < h}"
  proof
    show "{h \<in> set handles. n + 1 < h} \<subseteq> {h \<in> set handles. n < h}" by auto
    have "n + 1 \<in> {h \<in> set handles. n < h}" using m by simp
    moreover have "n + 1 \<notin> {h \<in> set handles. n + 1 < h}" by simp
    ultimately show "{h \<in> set handles. n + 1 < h} \<noteq> {h \<in> set handles. n < h}" by blast
  qed
  then have "card {h \<in> set handles. n + 1 < h} < card {h \<in> set handles. n < h}"
    by (intro psubset_card_mono) simp_all
  then show "((handles, n + 1), (handles, n)) \<in> measure (\<lambda>(handles, n). card {h \<in> set handles. n < h})"
    by simp
qed

declare free_handle.simps [simp del]

text \<open>The conversion of an \<^verbatim>\<open>int\<close> to the \<^verbatim>\<open>int16_t\<close> of a file handle.\<close>

definition int16 :: "int \<Rightarrow> int" where
  "int16 x = sint (word_of_int x :: 16 word)"

text \<open>
  The record that \<^verbatim>\<open>cart_open\<close> builds for a new file: the two arrays are allocated
  with one element each, and neither they nor the two counters are written.
\<close>

definition new_file :: "string \<Rightarrow> int \<Rightarrow> driver \<Rightarrow> files" where
  "new_file path h s =
     \<lparr> fileName = path, file_length = 0, filePointer = 0,
       location = \<lparr> cartridges = uninit_int s, occupiedCartridges = [uninit_int s],
                    frames = uninit_int s, occupiedFrames = [uninit_int s] \<rparr>,
       fileHandle = h \<rparr>"

text \<open>
  \<^verbatim>\<open>cart_open\<close>. Names are compared as byte strings. The code copies a name without
  its terminator (\<^verbatim>\<open>malloc(strlen(path))\<close>, \<^verbatim>\<open>strncpy\<close>) and compares with \<^verbatim>\<open>strcmp\<close>,
  which reads past the allocation; the model takes the byte that follows a stored
  name to be zero, so that a stored name matches exactly the equal path. The
  allocations are taken to succeed.
  The reopening branch resets \<^verbatim>\<open>filesystem[i].filePointer\<close> of the matching record and
  then writes the handle to \<^verbatim>\<open>filesystem[fileSystemSize]\<close> and returns that field.
\<close>

definition cart_open :: "string \<Rightarrow> driver \<Rightarrow> fault + (int \<times> driver)" where
  "cart_open path s =
     (if filesystem s = [] then
        Inr (1, s\<lparr>filesystem := [new_file path 1 s]\<rparr>)
      else if length (filesystem s) \<le> fileSystemSize s
      then Inl (IndexOutOfBounds (int (fileSystemSize s)) (length (filesystem s)))
      else
        (case find (\<lambda>i. path = fileName (filesystem s ! i)) [0..<Suc (fileSystemSize s)] of
           Some i \<Rightarrow>
             if fileHandle (filesystem s ! i) > 0 then Inr (- 1, s)
             else
               (let fileHandleAssign =
                      free_handle (map (\<lambda>j. fileHandle (filesystem s ! j)) [0..<Suc (fileSystemSize s)]) 0;
                    fs1 = (filesystem s)[i := (filesystem s ! i)\<lparr>filePointer := 0\<rparr>];
                    fs2 = fs1[fileSystemSize s :=
                            (fs1 ! fileSystemSize s)\<lparr>fileHandle := int16 fileHandleAssign\<rparr>]
                in Inr (fileHandle (fs2 ! fileSystemSize s), s\<lparr>filesystem := fs2\<rparr>))
         | None \<Rightarrow>
             (let n = fileSystemSize s + 1;
                  fs1 = take n (filesystem s);
                  fileHandleAssign = free_handle (map (\<lambda>j. fileHandle (fs1 ! j)) [0..<n]) 0;
                  fs2 = fs1 @ [new_file path (int16 fileHandleAssign) s]
              in Inr (fileHandle (fs2 ! n), s\<lparr>filesystem := fs2, fileSystemSize := n\<rparr>))))"

definition cart_close :: "int \<Rightarrow> driver \<Rightarrow> fault + (int \<times> driver)" where
  "cart_close fd s =
     (case find_fd (filesystem s) fd [0..<Suc (fileSystemSize s)] of
        Inl e \<Rightarrow> Inl e
      | Inr None \<Rightarrow> Inr (- 1, s)
      | Inr (Some fileSystemIndex) \<Rightarrow>
          if fileHandle (filesystem s ! fileSystemIndex) = 0 then Inr (- 1, s)
          else Inr (0, s\<lparr>filesystem := (filesystem s)[fileSystemIndex :=
                  (filesystem s ! fileSystemIndex)\<lparr>fileHandle := 0, filePointer := 0\<rparr>]\<rparr>))"

text \<open>
  \<^verbatim>\<open>cart_seek\<close>. \<open>loc\<close> is a \<^verbatim>\<open>uint32_t\<close>: the comparison
  \<^verbatim>\<open>filesystem[i].length < loc\<close> converts the length to unsigned, and the assignment
  to \<^verbatim>\<open>filePointer\<close> converts \<open>loc\<close> to \<^verbatim>\<open>int32_t\<close>.
\<close>

definition cart_seek :: "int \<Rightarrow> 32 word \<Rightarrow> driver \<Rightarrow> fault + (int \<times> driver)" where
  "cart_seek fd loc s =
     (case find_fd (filesystem s) fd [0..<Suc (fileSystemSize s)] of
        Inl e \<Rightarrow> Inl e
      | Inr None \<Rightarrow> Inr (- 1, s)
      | Inr (Some fileSystemIndex) \<Rightarrow>
          if fileHandle (filesystem s ! fileSystemIndex) = 0 then Inr (- 1, s)
          else if (word_of_int (file_length (filesystem s ! fileSystemIndex)) :: 32 word) < loc
          then Inr (- 1, s)
          else Inr (0, s\<lparr>filesystem := (filesystem s)[fileSystemIndex :=
                  (filesystem s ! fileSystemIndex)\<lparr>filePointer := sint loc\<rparr>]\<rparr>))"

text \<open>
  The handle \<open>fd\<close> is open at record \<open>k\<close>: \<open>fd\<close> is not 0 (the handle of a closed
  file), the file system holds the records \<open>0 .. fileSystemSize\<close>, record \<open>k\<close> is
  one of them and has \<open>fd\<close> as its handle, and no record before it has. This is said
  of the records themselves, not of the lookup of the code.
\<close>

definition open_at :: "driver \<Rightarrow> int \<Rightarrow> nat \<Rightarrow> bool" where
  "open_at s fd k \<longleftrightarrow>
     fd \<noteq> 0 \<and>
     k \<le> fileSystemSize s \<and>
     fileSystemSize s < length (filesystem s) \<and>
     fileHandle (filesystem s ! k) = fd \<and>
     (\<forall>j<k. fileHandle (filesystem s ! j) \<noteq> fd)"

text \<open>No record of the file system has \<open>fd\<close> as its handle.\<close>

definition unknown_handle :: "driver \<Rightarrow> int \<Rightarrow> bool" where
  "unknown_handle s fd \<longleftrightarrow>
     fileSystemSize s < length (filesystem s) \<and>
     (\<forall>j\<le>fileSystemSize s. fileHandle (filesystem s ! j) \<noteq> fd)"

subsection \<open>Read and write\<close>

text \<open>
  The statement that read and write run before an access to a frame: load the
  cartridge when it is not the loaded one. \<open>False\<close> is the early \<^verbatim>\<open>return -1\<close>.
\<close>

definition load_cartridge :: "nat \<Rightarrow> int \<Rightarrow> driver \<Rightarrow> bool \<times> driver" where
  "load_cartridge frame_size c s =
     (if currentlyLoadedCartridge s \<noteq> c then
        (let s1 = snd (runBusRequest frame_size 2 (word_of_int c) 0 s)
         in if rt (regstate s1) \<noteq> 0 then (False, s1)
            else (True, s1\<lparr>currentlyLoadedCartridge := c\<rparr>))
      else (True, s))"

text \<open>
  The body of the loop that fills \<^verbatim>\<open>localBuf\<close> (the same in \<^verbatim>\<open>cart_read\<close> and
  \<^verbatim>\<open>cart_write\<close>): the slot arrays are indexed at \<^verbatim>\<open>i + startFrameIndex\<close>; a frame
  found in the cache is copied, otherwise it is read from the bus. The result is a
  fault, or whether to go on, with the buffer and the state.
\<close>

definition fetch_frame ::
    "nat \<Rightarrow> nat \<Rightarrow> int \<Rightarrow> int \<Rightarrow> byte list \<Rightarrow> driver \<Rightarrow> fault + (bool \<times> byte list \<times> driver)" where
  "fetch_frame frame_size k startFrameIndex i localBuf s =
     (case array_get (occupiedCartridges (location (filesystem s ! k))) (i + startFrameIndex) of
        Inl e \<Rightarrow> Inl e
      | Inr c \<Rightarrow>
     (case array_get (occupiedFrames (location (filesystem s ! k))) (i + startFrameIndex) of
        Inl e \<Rightarrow> Inl e
      | Inr f \<Rightarrow>
     (case get_cart_cache c f (cache_globals s) of
        (Some cached, cs) \<Rightarrow>
          (case store_bytes localBuf (int frame_size * i) cached of
             Inl e \<Rightarrow> Inl e
           | Inr lb \<Rightarrow> Inr (True, lb, s\<lparr>cache_globals := cs\<rparr>))
      | (None, cs) \<Rightarrow>
          (case load_cartridge frame_size c (s\<lparr>cache_globals := cs\<rparr>) of
             (False, s1) \<Rightarrow> Inr (False, localBuf, s1)
           | (True, s1) \<Rightarrow>
               (case runBusRequest frame_size 3 0 (word_of_int f) s1 of
                  (payload, s2) \<Rightarrow>
                    (case (case payload of None \<Rightarrow> Inr localBuf
                           | Some p \<Rightarrow> store_bytes localBuf (int frame_size * i) p) of
                       Inl e \<Rightarrow> Inl e
                     | Inr lb \<Rightarrow>
                         if rt (regstate s2) \<noteq> 0 then Inr (False, lb, s2)
                         else Inr (True, lb, s2)))))))"

fun fetch_frames ::
    "nat \<Rightarrow> nat \<Rightarrow> int \<Rightarrow> int list \<Rightarrow> byte list \<Rightarrow> driver \<Rightarrow> fault + (bool \<times> byte list \<times> driver)" where
  "fetch_frames frame_size k startFrameIndex [] localBuf s = Inr (True, localBuf, s)"
| "fetch_frames frame_size k startFrameIndex (i # is) localBuf s =
     (case fetch_frame frame_size k startFrameIndex i localBuf s of
        Inl e \<Rightarrow> Inl e
      | Inr (False, lb, s1) \<Rightarrow> Inr (False, lb, s1)
      | Inr (True, lb, s1) \<Rightarrow> fetch_frames frame_size k startFrameIndex is lb s1)"

definition set_file :: "nat \<Rightarrow> files \<Rightarrow> driver \<Rightarrow> driver" where
  "set_file k f s = s\<lparr>filesystem := (filesystem s)[k := f]\<rparr>"

text \<open>
  \<^verbatim>\<open>cart_read\<close> returns the status and the bytes it stored in the caller's buffer.
  The divisions are those of C (\<open>sdiv\<close> truncates). The loop is
  \<^verbatim>\<open>for(i=0; i<=(endFrameIndex - startFrameIndex) && i<=...location.frames; i++)\<close>:
  it runs over \<open>i\<close> from 0 to the smaller of the two bounds. Both copies to the
  caller's buffer are \<^verbatim>\<open>strncpy\<close>.
\<close>

definition cart_read :: "nat \<Rightarrow> int \<Rightarrow> int \<Rightarrow> driver \<Rightarrow> fault + ((int \<times> byte list) \<times> driver)" where
  "cart_read frame_size fd cnt s =
     (case find_fd (filesystem s) fd [0..<Suc (fileSystemSize s)] of
        Inl e \<Rightarrow> Inl e
      | Inr None \<Rightarrow> Inr ((- 1, []), s)
      | Inr (Some fileSystemIndex) \<Rightarrow>
          (let fl = filesystem s ! fileSystemIndex
           in if fileHandle fl = 0 then Inr ((- 1, []), s)
              else
                (let startFrameIndex = filePointer fl sdiv int frame_size;
                     endFrameIndex = (filePointer fl + cnt) sdiv int frame_size;
                     localBuf = replicate (nat (int frame_size * ((endFrameIndex - startFrameIndex) + 1)))
                                  (uninit_byte s)
                 in case fetch_frames frame_size fileSystemIndex startFrameIndex
                           [0..min (endFrameIndex - startFrameIndex) (frames (location fl))] localBuf s of
                      Inl e \<Rightarrow> Inl e
                    | Inr (False, lb, s1) \<Rightarrow> Inr ((- 1, []), s1)
                    | Inr (True, lb, s1) \<Rightarrow>
                        if filePointer fl + cnt > file_length fl then
                          (let i = file_length fl - filePointer fl
                           in case strncpy_from lb (filePointer fl - startFrameIndex * int frame_size) i of
                                Inl e \<Rightarrow> Inl e
                              | Inr out \<Rightarrow>
                                  Inr ((i, out),
                                       set_file fileSystemIndex (fl\<lparr>filePointer := file_length fl\<rparr>) s1))
                        else
                          (case strncpy_from lb (filePointer fl - startFrameIndex * int frame_size) cnt of
                             Inl e \<Rightarrow> Inl e
                           | Inr out \<Rightarrow>
                               Inr ((cnt, out),
                                    set_file fileSystemIndex (fl\<lparr>filePointer := filePointer fl + cnt\<rparr>) s1)))))"

text \<open>The roll-over of the allocation frontier after \<^verbatim>\<open>nextFrame++\<close>.\<close>

definition advance_frontier :: "nat \<Rightarrow> driver \<Rightarrow> driver" where
  "advance_frontier frame_size s =
     (if nextFrame s = int frame_size
      then s\<lparr>nextFrame := 0, nextCartridge := nextCartridge s + 1\<rparr>
      else s)"

text \<open>
  The body of the loop of \<^verbatim>\<open>cart_write\<close> that writes the frames back: load the
  cartridge, copy one frame of \<^verbatim>\<open>localBuf\<close> to \<^verbatim>\<open>sizeOfFrameBuf\<close> with \<^verbatim>\<open>strncpy\<close>, put
  it into the cache (the status of the put is not looked at) and write it to the bus.
\<close>

definition write_frame ::
    "nat \<Rightarrow> nat \<Rightarrow> int \<Rightarrow> int \<Rightarrow> byte list \<Rightarrow> byte list \<Rightarrow> driver
       \<Rightarrow> fault + (bool \<times> byte list \<times> driver)" where
  "write_frame frame_size k startFrameIndex i localBuf sizeOfFrameBuf s =
     (case array_get (occupiedCartridges (location (filesystem s ! k))) (i + startFrameIndex) of
        Inl e \<Rightarrow> Inl e
      | Inr c \<Rightarrow>
     (case load_cartridge frame_size c s of
        (False, s1) \<Rightarrow> Inr (False, sizeOfFrameBuf, s1)
      | (True, s1) \<Rightarrow>
     (case strncpy_from localBuf (i * int frame_size) (int frame_size) of
        Inl e \<Rightarrow> Inl e
      | Inr bs \<Rightarrow>
     (case store_bytes sizeOfFrameBuf 0 bs of
        Inl e \<Rightarrow> Inl e
      | Inr fb \<Rightarrow>
     (case array_get (occupiedFrames (location (filesystem s1 ! k))) (i + startFrameIndex) of
        Inl e \<Rightarrow> Inl e
      | Inr f \<Rightarrow>
          (let s2 = s1\<lparr>cache_globals := snd (put_cart_cache c f fb (cache_globals s1))\<rparr>;
               s3 = snd (runBusRequest frame_size 4 0 (word_of_int f) s2)
           in if rt (regstate s3) \<noteq> 0 then Inr (False, fb, s3)
              else Inr (True, fb, s3)))))))"

fun write_frames ::
    "nat \<Rightarrow> nat \<Rightarrow> int \<Rightarrow> int list \<Rightarrow> byte list \<Rightarrow> byte list \<Rightarrow> driver
       \<Rightarrow> fault + (bool \<times> byte list \<times> driver)" where
  "write_frames frame_size k startFrameIndex [] localBuf sizeOfFrameBuf s =
     Inr (True, sizeOfFrameBuf, s)"
| "write_frames frame_size k startFrameIndex (i # is) localBuf sizeOfFrameBuf s =
     (case write_frame frame_size k startFrameIndex i localBuf sizeOfFrameBuf s of
        Inl e \<Rightarrow> Inl e
      | Inr (False, fb, s1) \<Rightarrow> Inr (False, fb, s1)
      | Inr (True, fb, s1) \<Rightarrow> write_frames frame_size k startFrameIndex is localBuf fb s1)"

text \<open>
  The branch of \<^verbatim>\<open>cart_write\<close> for a file of length 0: take the frontier slot as slot
  0, set length and pointer to \<open>cnt\<close>, copy \<open>cnt\<close> bytes of \<open>buf\<close> into the frame
  buffer on the stack with \<^verbatim>\<open>strncpy\<close>, load, put, write.
\<close>

definition first_write :: "nat \<Rightarrow> nat \<Rightarrow> byte list \<Rightarrow> int \<Rightarrow> driver \<Rightarrow> fault + (int \<times> driver)" where
  "first_write frame_size k buf cnt s =
     (let fl = filesystem s ! k;
          loc = (location fl)\<lparr>frames := 0, cartridges := 0,
                   occupiedFrames := (occupiedFrames (location fl))[0 := nextFrame s],
                   occupiedCartridges := (occupiedCartridges (location fl))[0 := nextCartridge s]\<rparr>;
          s1 = advance_frontier frame_size (s\<lparr>nextFrame := nextFrame s + 1\<rparr>);
          s2 = set_file k (fl\<lparr>location := loc, file_length := cnt, filePointer := cnt\<rparr>) s1
      in case strncpy_bytes buf cnt of
           Inl e \<Rightarrow> Inl e
         | Inr bs \<Rightarrow>
        (case store_bytes (replicate frame_size (uninit_byte s)) 0 bs of
           Inl e \<Rightarrow> Inl e
         | Inr sizeOfFrameBuf \<Rightarrow>
        (case array_get (occupiedCartridges loc) 0 of
           Inl e \<Rightarrow> Inl e
         | Inr c \<Rightarrow>
        (case load_cartridge frame_size c s2 of
           (False, s3) \<Rightarrow> Inr (- 1, s3)
         | (True, s3) \<Rightarrow>
        (case array_get (occupiedFrames loc) 0 of
           Inl e \<Rightarrow> Inl e
         | Inr f \<Rightarrow>
             (let s4 = s3\<lparr>cache_globals := snd (put_cart_cache c f sizeOfFrameBuf (cache_globals s3))\<rparr>;
                  s5 = snd (runBusRequest frame_size 4 0 (word_of_int f) s4)
              in if rt (regstate s5) \<noteq> 0 then Inr (- 1, s5)
                 else Inr (cnt, s5)))))))"

text \<open>The allocation of one more slot: both arrays grow by one element.\<close>

definition grow_file :: "nat \<Rightarrow> nat \<Rightarrow> driver \<Rightarrow> driver" where
  "grow_file frame_size k s =
     (let fl = filesystem s ! k;
          n = frames (location fl) + 1;
          fr = (realloc_ints (uninit_int s) (occupiedFrames (location fl)) (n + 1))[nat n := nextFrame s];
          ca = (realloc_ints (uninit_int s) (occupiedCartridges (location fl)) (n + 1))[nat n := nextCartridge s];
          loc = (location fl)\<lparr>frames := n, occupiedFrames := fr, occupiedCartridges := ca\<rparr>
      in advance_frontier frame_size
           (set_file k (fl\<lparr>location := loc\<rparr>) (s\<lparr>nextFrame := nextFrame s + 1\<rparr>)))"

text \<open>
  The branch of \<^verbatim>\<open>cart_write\<close> for a file that has bytes: grow by at most one slot,
  read the frames of the range into \<^verbatim>\<open>localBuf\<close>, overlay \<open>cnt\<close> bytes of \<open>buf\<close> with
  \<^verbatim>\<open>strncpy\<close>, write the frames back, move length and pointer.
\<close>

definition later_write :: "nat \<Rightarrow> nat \<Rightarrow> byte list \<Rightarrow> int \<Rightarrow> driver \<Rightarrow> fault + (int \<times> driver)" where
  "later_write frame_size k buf cnt s0 =
     (let s = (if filePointer (filesystem s0 ! k) + cnt
                    > (frames (location (filesystem s0 ! k)) + 1) * int frame_size
               then grow_file frame_size k s0 else s0);
          fl = filesystem s ! k;
          startFrameIndex = filePointer fl sdiv int frame_size;
          endFrameIndex = (if (filePointer fl + cnt) smod int frame_size \<noteq> 0
                           then (filePointer fl + cnt) sdiv int frame_size
                           else startFrameIndex);
          localBuf = replicate (nat (int frame_size * ((endFrameIndex - startFrameIndex) + 1)))
                       (uninit_byte s)
      in case fetch_frames frame_size k startFrameIndex [0..endFrameIndex - startFrameIndex] localBuf s of
           Inl e \<Rightarrow> Inl e
         | Inr (False, lb, s1) \<Rightarrow> Inr (- 1, s1)
         | Inr (True, lb, s1) \<Rightarrow>
        (case strncpy_bytes buf cnt of
           Inl e \<Rightarrow> Inl e
         | Inr bs \<Rightarrow>
        (case store_bytes lb (filePointer fl - startFrameIndex * int frame_size) bs of
           Inl e \<Rightarrow> Inl e
         | Inr lb2 \<Rightarrow>
        (case write_frames frame_size k startFrameIndex [0..endFrameIndex - startFrameIndex] lb2
                (replicate frame_size (uninit_byte s)) s1 of
           Inl e \<Rightarrow> Inl e
         | Inr (False, fb, s2) \<Rightarrow> Inr (- 1, s2)
         | Inr (True, fb, s2) \<Rightarrow>
             (let fl2 = filesystem s2 ! k
              in if file_length fl2 < filePointer fl2 + cnt then
                   (let len = file_length fl2 + (cnt - (file_length fl2 - filePointer fl2))
                    in Inr (cnt, set_file k (fl2\<lparr>file_length := len, filePointer := len\<rparr>) s2))
                 else Inr (cnt, set_file k (fl2\<lparr>filePointer := filePointer fl2 + cnt\<rparr>) s2))))))"

definition cart_write :: "nat \<Rightarrow> int \<Rightarrow> byte list \<Rightarrow> int \<Rightarrow> driver \<Rightarrow> fault + (int \<times> driver)" where
  "cart_write frame_size fd buf cnt s =
     (case find_fd (filesystem s) fd [0..<Suc (fileSystemSize s)] of
        Inl e \<Rightarrow> Inl e
      | Inr None \<Rightarrow> Inr (- 1, s)
      | Inr (Some fileSystemIndex) \<Rightarrow>
          if fileHandle (filesystem s ! fileSystemIndex) = 0 then Inr (- 1, s)
          else if file_length (filesystem s ! fileSystemIndex) = 0
          then first_write frame_size fileSystemIndex buf cnt s
          else later_write frame_size fileSystemIndex buf cnt s)"

subsection \<open>Runs of the driver\<close>

text \<open>
  The state in which the program starts (every global is zero and the file system
  pointer is null), after \<^verbatim>\<open>set_cart_cache_size max_frames\<close>, with the replies that the
  controller will give.
\<close>

definition driver_start :: "nat \<Rightarrow> (64 word \<times> byte list) list \<Rightarrow> driver" where
  "driver_start max_frames replies =
     \<lparr> regstate = \<lparr>kyOne = 0, ctOne = 0, fmOne = 0, rt = 0\<rparr>,
       filesystem = [], fileSystemSize = 0, currentlyLoadedCartridge = 0,
       nextFrame = 0, nextCartridge = 0,
       cache_globals = snd (set_cart_cache_size max_frames
                          \<lparr>myCache = [], myMaxFrames = 0, numberOfUnoccupiedFrames = 0\<rparr>),
       bus_replies = replies, bus_requests = [],
       uninit_int = 0, uninit_byte = 0 \<rparr>"

text \<open>Sequencing of calls: the next call runs in the state the previous one left.\<close>

definition and_then ::
    "fault + ('a \<times> driver) \<Rightarrow> (driver \<Rightarrow> fault + ('b \<times> driver)) \<Rightarrow> fault + ('b \<times> driver)" where
  "and_then r f = (case r of Inl e \<Rightarrow> Inl e | Inr (x, s) \<Rightarrow> f s)"

definition result :: "fault + ('a \<times> driver) \<Rightarrow> fault + 'a" where
  "result r = (case r of Inl e \<Rightarrow> Inl e | Inr (x, s) \<Rightarrow> Inr x)"

text \<open>Name, handle and pointer of every file record after a run.\<close>

definition file_table :: "fault + ('a \<times> driver) \<Rightarrow> fault + ('a \<times> (string \<times> int \<times> int) list)" where
  "file_table r =
     (case r of
        Inl e \<Rightarrow> Inl e
      | Inr (x, s) \<Rightarrow> Inr (x, map (\<lambda>f. (fileName f, fileHandle f, filePointer f)) (filesystem s)))"

text \<open>
  Length, pointer, \<^verbatim>\<open>location.frames\<close> and the number of elements allocated for the
  two slot arrays, for every file record after a run.
\<close>

definition slot_table ::
    "fault + ('a \<times> driver) \<Rightarrow> fault + ('a \<times> (int \<times> int \<times> int \<times> nat \<times> nat) list)" where
  "slot_table r =
     (case r of
        Inl e \<Rightarrow> Inl e
      | Inr (x, s) \<Rightarrow>
          Inr (x, map (\<lambda>f. (file_length f, filePointer f, frames (location f),
                             length (occupiedCartridges (location f)),
                             length (occupiedFrames (location f)))) (filesystem s)))"

text \<open>
  \<^verbatim>\<open>cart_poweron\<close> against a controller that answers \<open>n\<close> exchanges with return code 0,
  the cache allocation delivering zeroed memory.
\<close>

definition powered :: "nat \<Rightarrow> nat \<Rightarrow> nat \<Rightarrow> nat \<Rightarrow> fault + (int \<times> driver)" where
  "powered frame_size max_cartridges max_frames n =
     Inr (cart_poweron frame_size max_cartridges (Some zero_heap)
            (driver_start max_frames (replicate n (0, []))))"

text \<open>
  Three runs with \<^verbatim>\<open>CART_FRAME_SIZE = 1024\<close>, two cartridges and a cache of one frame.
  Reopening: open \<^verbatim>\<open>a\<close> and \<^verbatim>\<open>b\<close>, close \<^verbatim>\<open>a\<close>, open \<^verbatim>\<open>a\<close> again.
  Reading at the end: write one full frame to a new file, then read one byte.
  Round trip: write \<open>buf\<close> to a new file, seek to 0, read as many bytes.
\<close>

definition reopen_scenario :: "fault + (int \<times> driver)" where
  "reopen_scenario =
     and_then (and_then (and_then (and_then (powered 1024 2 1 5)
       (cart_open ''a'')) (cart_open ''b'')) (cart_close 1)) (cart_open ''a'')"

definition full_frame_written :: "fault + (int \<times> driver)" where
  "full_frame_written =
     and_then (and_then (powered 1024 2 1 7)
       (cart_open ''a'')) (cart_write 1024 1 (replicate 1024 0x41) 1024)"

definition read_at_end_scenario :: "fault + ((int \<times> byte list) \<times> driver)" where
  "read_at_end_scenario = and_then full_frame_written (cart_read 1024 1 1)"

definition round_trip_scenario :: "byte list \<Rightarrow> fault + ((int \<times> byte list) \<times> driver)" where
  "round_trip_scenario buf =
     and_then (and_then (and_then (and_then (powered 1024 2 1 7)
       (cart_open ''a'')) (cart_write 1024 1 buf (int (length buf)))) (cart_seek 1 0))
       (cart_read 1024 1 (int (length buf)))"

text \<open>
  A driver with two open files for the seek example: \<^verbatim>\<open>a\<close> with handle 1, three
  bytes and the pointer at 3, and \<^verbatim>\<open>b\<close> with handle 2, five bytes and the pointer
  at 5.
\<close>

definition seek_example :: driver where
  "seek_example =
     (driver_start 1 [])
       \<lparr>filesystem :=
          [(new_file ''a'' 1 (driver_start 1 []))\<lparr>file_length := 3, filePointer := 3\<rparr>,
           (new_file ''b'' 2 (driver_start 1 []))\<lparr>file_length := 5, filePointer := 5\<rparr>],
        fileSystemSize := 1\<rparr>"


section \<open>Register codec: proofs\<close>

lemma generateBusRequest_or:
  "generateBusRequest r =
     push_bit 56 (ucast (kyOne r)) OR push_bit 31 (ucast (ctOne r)) OR push_bit 15 (ucast (fmOne r))"
proof -
  have a: "push_bit 56 (ucast (kyOne r) :: 64 word) + push_bit 31 (ucast (ctOne r))
     = push_bit 56 (ucast (kyOne r)) OR push_bit 31 (ucast (ctOne r))"
    by (rule disjunctive_add_eq_or, rule bit_eqI) (auto simp: bit_simps dest: bit_imp_le_length)
  have b: "(push_bit 56 (ucast (kyOne r) :: 64 word) OR push_bit 31 (ucast (ctOne r)))
       + push_bit 15 (ucast (fmOne r))
     = (push_bit 56 (ucast (kyOne r)) OR push_bit 31 (ucast (ctOne r)))
       OR push_bit 15 (ucast (fmOne r))"
    by (rule disjunctive_add_eq_or, rule bit_eqI) (auto simp: bit_simps dest: bit_imp_le_length)
  show ?thesis
    by (simp add: generateBusRequest_def Let_def a b or.assoc)
qed

lemma field_masks:
  "(0xff00000000000000 :: 64 word) = push_bit 56 (mask 8)"
  "(0x7fff80000000 :: 64 word) = push_bit 31 (mask 16)"
  "(0x7fff8000 :: 64 word) = push_bit 15 (mask 16)"
  "(0x800000000000 :: 64 word) = push_bit 47 (mask 1)"
  by (simp_all add: mask_eq_exp_minus_1)

lemma codec_fields:
  "readBusResponse (generateBusRequest \<lparr>kyOne = opc, ctOne = cart, fmOne = frm, rt = r\<rparr>)
     = \<lparr>kyOne = opc, ctOne = cart, fmOne = frm, rt = 0\<rparr>"
  unfolding generateBusRequest_or readBusResponse_def field_masks
  apply simp
  apply (intro conjI; rule bit_eqI)
     apply (auto simp: bit_simps dest: bit_imp_le_length)
  done

text \<open>
  C3. Decoding an encoded request gives back the opcode, the cartridge and the frame,
  with return code 0, for every 8-bit opcode and every 16-bit cartridge and frame
  index, whatever the return-code register held when the request was generated.
\<close>

theorem wire_codec_round_trip:
  "readBusResponse (generateBusRequest \<lparr>kyOne = opc, ctOne = cart, fmOne = frm, rt = r\<rparr>)
     = \<lparr>kyOne = opc, ctOne = cart, fmOne = frm, rt = 0\<rparr>"
  by (rule codec_fields)

text \<open>
  C9 as the spec states it fails: the request word for opcode 3, cartridge 0x1234 and
  frame 0x5678 is not serialized as 03 00 00 09 1A 2B 38 00.
\<close>

theorem golden_vector_counterexample:
  "htonll64 (generateBusRequest \<lparr>kyOne = 3, ctOne = 0x1234, fmOne = 0x5678, rt = 0\<rparr>)
     \<noteq> [0x03, 0x00, 0x00, 0x09, 0x1A, 0x2B, 0x38, 0x00]"
  by (simp add: htonll64_def generateBusRequest_def upt_rec)

text \<open>
  C9, amended. The request word for opcode 3, cartridge 0x1234 and frame 0x5678 is
  0x0300091A2B3C0000 (the cartridge at bit 31, the frame at bit 15); its big-endian
  bytes are 03 00 09 1A 2B 3C 00 00.
\<close>

theorem golden_vector:
  "htonll64 (generateBusRequest \<lparr>kyOne = 3, ctOne = 0x1234, fmOne = 0x5678, rt = 0\<rparr>)
     = [0x03, 0x00, 0x09, 0x1A, 0x2B, 0x3C, 0x00, 0x00]"
  by (simp add: htonll64_def generateBusRequest_def upt_rec)

section \<open>Frame cache: proofs\<close>

lemma adjust_step_length: "length (adjust_step e a x c) = length c"
  by (simp add: adjust_step_def)

lemma adjust_step_nth:
  "j < length c \<Longrightarrow> adjust_step e a x c ! j =
     (if j = x \<and> j \<noteq> e \<and> priority (c ! j) < a
      then (c ! j)\<lparr>priority := priority (c ! j) + 1\<rparr> else c ! j)"
  by (auto simp: adjust_step_def nth_list_update)

lemma fold_adjust_length: "length (fold (adjust_step e a) xs c) = length c"
  by (induction xs arbitrary: c) (simp_all add: adjust_step_length)

lemma fold_adjust_nth:
  "distinct xs \<Longrightarrow> j < length c \<Longrightarrow>
   fold (adjust_step e a) xs c ! j =
     (if j \<in> set xs \<and> j \<noteq> e \<and> priority (c ! j) < a
      then (c ! j)\<lparr>priority := priority (c ! j) + 1\<rparr> else c ! j)"
proof (induction xs arbitrary: c)
  case Nil
  then show ?case by simp
next
  case (Cons x xs)
  have len: "j < length (adjust_step e a x c)"
    using Cons.prems by (simp add: adjust_step_length)
  have dx: "distinct xs" and nx: "x \<notin> set xs"
    using Cons.prems by simp_all
  show ?case
    using Cons.IH [OF dx len] nx Cons.prems(2)
    by (auto simp: adjust_step_nth)
qed

lemma scan_order_set: "set (scan_order s) = {numberOfUnoccupiedFrames s..<myMaxFrames s}"
  by (simp add: scan_order_def)

lemma touch_fields:
  "myMaxFrames (touch i s) = myMaxFrames s"
  "numberOfUnoccupiedFrames (touch i s) = numberOfUnoccupiedFrames s"
  "length (myCache (touch i s)) = length (myCache s)"
  by (simp_all add: touch_def adjust_priority_def Let_def fold_adjust_length)

lemma touch_nth:
  assumes "j < length (myCache s)" "i < length (myCache s)"
  shows "myCache (touch i s) ! j =
     (if j = i then (myCache s ! i)\<lparr>priority := int (numberOfUnoccupiedFrames s) + 1\<rparr>
      else if numberOfUnoccupiedFrames s \<le> j \<and> j < myMaxFrames s
              \<and> priority (myCache s ! j) < priority (myCache s ! i)
      then (myCache s ! j)\<lparr>priority := priority (myCache s ! j) + 1\<rparr>
      else myCache s ! j)"
  using assms
  by (simp add: touch_def adjust_priority_def Let_def fold_adjust_nth scan_order_def
        nth_list_update)


lemma rotate_priority_inj: "lo \<le> p \<Longrightarrow> inj_on (rotate_priority lo p) {lo..hi}"
  by (auto simp: inj_on_def rotate_priority_def split: if_splits)

lemma rotate_priority_image:
  assumes "lo \<le> p" "p \<le> hi"
  shows "rotate_priority lo p ` {lo..hi} = {lo..hi}"
proof (rule card_subset_eq)
  show "finite {lo..hi}" by simp
  show "rotate_priority lo p ` {lo..hi} \<subseteq> {lo..hi}"
    using assms by (auto simp: rotate_priority_def)
  show "card (rotate_priority lo p ` {lo..hi}) = card {lo..hi}"
    by (rule card_image) (rule rotate_priority_inj [OF assms(1)])
qed

lemma touch_priority:
  assumes inv: "cache_inv s"
    and i: "numberOfUnoccupiedFrames s \<le> i" "i < myMaxFrames s"
    and j: "numberOfUnoccupiedFrames s \<le> j" "j < myMaxFrames s"
  shows "priority (myCache (touch i s) ! j) =
     rotate_priority (int (numberOfUnoccupiedFrames s) + 1) (priority (myCache s ! i))
        (priority (myCache s ! j))"
proof -
  have len: "length (myCache s) = myMaxFrames s"
    using inv by (simp add: cache_inv_def)
  have inj: "inj_on (\<lambda>j. priority (myCache s ! j)) {numberOfUnoccupiedFrames s..<myMaxFrames s}"
    using inv by (simp add: cache_inv_def)
  have eq: "priority (myCache s ! j) = priority (myCache s ! i) \<longleftrightarrow> j = i"
    using inj i j by (auto simp: inj_on_def)
  show ?thesis
    using i j eq by (simp add: touch_nth len rotate_priority_def)
qed

lemma touch_key:
  assumes "length (myCache s) = myMaxFrames s" "i < myMaxFrames s" "j < myMaxFrames s"
  shows "cartridge (myCache (touch i s) ! j) = cartridge (myCache s ! j)"
    and "frame (myCache (touch i s) ! j) = frame (myCache s ! j)"
  using assms by (simp_all add: touch_nth)

lemma touch_inv:
  assumes inv: "cache_inv s"
    and i: "numberOfUnoccupiedFrames s \<le> i" "i < myMaxFrames s"
  shows "cache_inv (touch i s)"
proof -
  let ?U = "numberOfUnoccupiedFrames s" and ?N = "myMaxFrames s"
  let ?f = "\<lambda>j. priority (myCache s ! j)"
  let ?g = "rotate_priority (int ?U + 1) (?f i)"
  have len: "length (myCache s) = ?N" and le: "?U \<le> ?N"
    and inj: "inj_on ?f {?U..<?N}"
    and img: "?f ` {?U..<?N} = {int ?U + 1..int ?N}"
    and keys: "inj_on (\<lambda>j. (cartridge (myCache s ! j), frame (myCache s ! j))) {?U..<?N}"
    using inv by (simp_all add: cache_inv_def)
  have pin: "?f i \<in> {int ?U + 1..int ?N}"
    using img i by auto
  have new: "\<And>j. j \<in> {?U..<?N} \<Longrightarrow> priority (myCache (touch i s) ! j) = ?g (?f j)"
    using touch_priority [OF inv i] by simp
  have ginj: "inj_on ?g {int ?U + 1..int ?N}"
    using pin by (intro rotate_priority_inj) simp
  have gimg: "?g ` {int ?U + 1..int ?N} = {int ?U + 1..int ?N}"
    using pin by (intro rotate_priority_image) simp_all
  have inj': "inj_on (\<lambda>j. priority (myCache (touch i s) ! j)) {?U..<?N}"
  proof -
    have "inj_on (?g \<circ> ?f) {?U..<?N}"
      using inj ginj img by (simp add: comp_inj_on)
    then show ?thesis
      using new by (simp add: inj_on_def)
  qed
  have img': "(\<lambda>j. priority (myCache (touch i s) ! j)) ` {?U..<?N} = {int ?U + 1..int ?N}"
  proof -
    have "(\<lambda>j. priority (myCache (touch i s) ! j)) ` {?U..<?N} = (\<lambda>j. ?g (?f j)) ` {?U..<?N}"
      using new by (intro image_cong) simp_all
    also have "\<dots> = ?g ` (?f ` {?U..<?N})"
      by (simp add: image_image)
    also have "\<dots> = {int ?U + 1..int ?N}"
      by (simp only: img gimg)
    finally show ?thesis .
  qed
  have keys': "inj_on (\<lambda>j. (cartridge (myCache (touch i s) ! j), frame (myCache (touch i s) ! j)))
        {?U..<?N}"
    using keys i by (simp add: inj_on_def touch_key [OF len])
  show ?thesis
    using len le inj' img' keys' by (simp add: cache_inv_def touch_fields)
qed


lemma nth_update_same_field:
  assumes "\<And>x. f (g x) = f x"
  shows "f (xs[i := g (xs ! i)] ! j) = f (xs ! j)"
proof (cases "i < length xs")
  case True
  then show ?thesis
    using assms by (cases "j = i") simp_all
next
  case False
  then show ?thesis by (simp add: list_update_beyond not_less)
qed

lemma cache_inv_payload:
  assumes "cache_inv s"
  shows "cache_inv (s\<lparr>myCache := (myCache s)[i := (myCache s ! i)\<lparr>cache := buf\<rparr>]\<rparr>)"
proof -
  let ?g = "\<lambda>e. e\<lparr>cache := buf\<rparr>"
  have "\<And>j. priority ((myCache s)[i := ?g (myCache s ! i)] ! j) = priority (myCache s ! j)"
       "\<And>j. cartridge ((myCache s)[i := ?g (myCache s ! i)] ! j) = cartridge (myCache s ! j)"
       "\<And>j. frame ((myCache s)[i := ?g (myCache s ! i)] ! j) = frame (myCache s ! j)"
    by (rule nth_update_same_field, simp)+
  then show ?thesis
    using assms by (simp add: cache_inv_def)
qed

lemma find_key_hit:
  assumes "find (\<lambda>i. frame (myCache s ! i) = frm \<and> cartridge (myCache s ! i) = cart) (scan_order s) = Some i"
  shows "numberOfUnoccupiedFrames s \<le> i" "i < myMaxFrames s"
    "frame (myCache s ! i) = frm" "cartridge (myCache s ! i) = cart"
proof -
  from assms have "i \<in> set (scan_order s)"
    and "frame (myCache s ! i) = frm \<and> cartridge (myCache s ! i) = cart"
    by (auto simp: find_Some_iff in_set_conv_nth)
  then show "numberOfUnoccupiedFrames s \<le> i" "i < myMaxFrames s"
    "frame (myCache s ! i) = frm" "cartridge (myCache s ! i) = cart"
    by (simp_all add: scan_order_set)
qed

lemma find_key_miss:
  assumes "find (\<lambda>i. frame (myCache s ! i) = frm \<and> cartridge (myCache s ! i) = cart) (scan_order s) = None"
    and "numberOfUnoccupiedFrames s \<le> j" "j < myMaxFrames s"
  shows "(cartridge (myCache s ! j), frame (myCache s ! j)) \<noteq> (cart, frm)"
  using assms by (auto simp: find_None_iff scan_order_set)

lemma find_victim_hit:
  assumes "find (\<lambda>i. priority (myCache s ! i) = int (myMaxFrames s)) (scan_order s) = Some i"
  shows "numberOfUnoccupiedFrames s \<le> i" "i < myMaxFrames s"
proof -
  from assms have "i \<in> set (scan_order s)"
    by (auto simp: find_Some_iff in_set_conv_nth)
  then show "numberOfUnoccupiedFrames s \<le> i" "i < myMaxFrames s"
    by (simp_all add: scan_order_set)
qed

lemma evict_inv:
  assumes inv: "cache_inv s"
    and i: "numberOfUnoccupiedFrames s \<le> i" "i < myMaxFrames s"
    and miss: "\<And>j. numberOfUnoccupiedFrames s \<le> j \<Longrightarrow> j < myMaxFrames s \<Longrightarrow>
                 (cartridge (myCache s ! j), frame (myCache s ! j)) \<noteq> (cart, frm)"
  shows "cache_inv (s\<lparr>myCache := (myCache s)[i := (myCache s ! i)
             \<lparr>frame := frm, cartridge := cart, cache := buf\<rparr>]\<rparr>)"
proof -
  let ?c = "(myCache s)[i := (myCache s ! i)\<lparr>frame := frm, cartridge := cart, cache := buf\<rparr>]"
  have len: "length (myCache s) = myMaxFrames s"
    using inv by (simp add: cache_inv_def)
  have pr: "\<And>j. priority (?c ! j) = priority (myCache s ! j)"
    by (rule nth_update_same_field [where g = "\<lambda>e. e\<lparr>frame := frm, cartridge := cart, cache := buf\<rparr>"]) simp
  have key: "\<And>j. j < myMaxFrames s \<Longrightarrow> (cartridge (?c ! j), frame (?c ! j)) =
       (if j = i then (cart, frm) else (cartridge (myCache s ! j), frame (myCache s ! j)))"
    using len i by (simp add: nth_list_update)
  have keys: "inj_on (\<lambda>j. (cartridge (myCache s ! j), frame (myCache s ! j)))
        {numberOfUnoccupiedFrames s..<myMaxFrames s}"
    using inv by (simp add: cache_inv_def)
  have keys': "inj_on (\<lambda>j. (cartridge (?c ! j), frame (?c ! j)))
        {numberOfUnoccupiedFrames s..<myMaxFrames s}"
    unfolding inj_on_def
  proof (intro ballI impI)
    fix x y
    assume x: "x \<in> {numberOfUnoccupiedFrames s..<myMaxFrames s}"
      and y: "y \<in> {numberOfUnoccupiedFrames s..<myMaxFrames s}"
      and e: "(cartridge (?c ! x), frame (?c ! x)) = (cartridge (?c ! y), frame (?c ! y))"
    show "x = y"
    proof (cases "x = i \<or> y = i")
      case True
      then show ?thesis
        using e x y key [of x] key [of y] miss [of x] miss [of y]
        by (auto split: if_splits)
    next
      case False
      then have "(cartridge (myCache s ! x), frame (myCache s ! x)) =
                 (cartridge (myCache s ! y), frame (myCache s ! y))"
        using e x y key [of x] key [of y] by simp
      then show ?thesis
        using keys x y by (auto simp: inj_on_def)
    qed
  qed
  show ?thesis
    using inv keys' by (simp add: cache_inv_def pr)
qed

lemma insert_inv:
  assumes inv: "cache_inv s"
    and room: "numberOfUnoccupiedFrames s \<noteq> 0"
    and miss: "\<And>j. numberOfUnoccupiedFrames s \<le> j \<Longrightarrow> j < myMaxFrames s \<Longrightarrow>
                 (cartridge (myCache s ! j), frame (myCache s ! j)) \<noteq> (cart, frm)"
  shows "cache_inv (s\<lparr>myCache := (myCache s)[numberOfUnoccupiedFrames s - 1 :=
             (myCache s ! (numberOfUnoccupiedFrames s - 1))
               \<lparr>frame := frm, cartridge := cart, cache := buf,
                priority := int (numberOfUnoccupiedFrames s)\<rparr>],
           numberOfUnoccupiedFrames := numberOfUnoccupiedFrames s - 1\<rparr>)"
proof -
  let ?U = "numberOfUnoccupiedFrames s" and ?N = "myMaxFrames s"
  let ?e = "(myCache s ! (?U - 1))\<lparr>frame := frm, cartridge := cart, cache := buf, priority := int ?U\<rparr>"
  let ?c = "(myCache s)[?U - 1 := ?e]"
  have len: "length (myCache s) = ?N" and le: "?U \<le> ?N"
    and inj: "inj_on (\<lambda>j. priority (myCache s ! j)) {?U..<?N}"
    and img: "(\<lambda>j. priority (myCache s ! j)) ` {?U..<?N} = {int ?U + 1..int ?N}"
    and keys: "inj_on (\<lambda>j. (cartridge (myCache s ! j), frame (myCache s ! j))) {?U..<?N}"
    using inv by (simp_all add: cache_inv_def)
  have range: "{?U - 1..<?N} = insert (?U - 1) {?U..<?N}"
    using room le by auto
  have old: "\<And>j. j \<in> {?U..<?N} \<Longrightarrow> ?c ! j = myCache s ! j"
    using room by (auto simp: nth_list_update)
  have new: "?c ! (?U - 1) = ?e"
    using room le len by simp
  have notin: "?U - 1 \<notin> {?U..<?N}"
    using room by auto
  have minus: "{?U..<?N} - {?U - 1} = {?U..<?N}"
    using notin by blast
  have "(\<lambda>j. priority (?c ! j)) ` {?U..<?N} = (\<lambda>j. priority (myCache s ! j)) ` {?U..<?N}"
    by (rule image_cong [OF refl]) (simp only: old)
  then have pimg: "(\<lambda>j. priority (?c ! j)) ` {?U..<?N} = {int ?U + 1..int ?N}"
    by (simp only: img)
  have pinj: "inj_on (\<lambda>j. priority (?c ! j)) {?U..<?N}"
    using inj old by (simp add: inj_on_def)
  have kinj: "inj_on (\<lambda>j. (cartridge (?c ! j), frame (?c ! j))) {?U..<?N}"
    using keys old by (simp add: inj_on_def)
  have inj': "inj_on (\<lambda>j. priority (?c ! j)) {?U - 1..<?N}"
    unfolding range inj_on_insert minus
  proof
    show "inj_on (\<lambda>j. priority (?c ! j)) {?U..<?N}" by (rule pinj)
    show "priority (?c ! (?U - 1)) \<notin> (\<lambda>j. priority (?c ! j)) ` {?U..<?N}"
      unfolding pimg new by simp
  qed
  have img': "(\<lambda>j. priority (?c ! j)) ` {?U - 1..<?N} = {int (?U - 1) + 1..int ?N}"
    unfolding range using pimg new room le by (auto simp: image_insert)
  have kfresh: "(cartridge (?c ! (?U - 1)), frame (?c ! (?U - 1)))
       \<notin> (\<lambda>j. (cartridge (?c ! j), frame (?c ! j))) ` {?U..<?N}"
  proof
    assume "(cartridge (?c ! (?U - 1)), frame (?c ! (?U - 1)))
       \<in> (\<lambda>j. (cartridge (?c ! j), frame (?c ! j))) ` {?U..<?N}"
    then obtain j where j: "j \<in> {?U..<?N}"
      and e: "(cartridge (?c ! (?U - 1)), frame (?c ! (?U - 1))) = (cartridge (?c ! j), frame (?c ! j))"
      by auto
    from e have "(cart, frm) = (cartridge (myCache s ! j), frame (myCache s ! j))"
      using old [OF j] new by simp
    then show False
      using miss [of j] j by simp
  qed
  have keys': "inj_on (\<lambda>j. (cartridge (?c ! j), frame (?c ! j))) {?U - 1..<?N}"
    unfolding range inj_on_insert minus using kinj kfresh by (rule conjI)
  show ?thesis
    using len le inj' img' keys' by (simp add: cache_inv_def)
qed

lemma put_cart_cache_inv:
  assumes "cache_inv s"
  shows "cache_inv (snd (put_cart_cache cart frm buf s))"
proof (cases "find (\<lambda>i. frame (myCache s ! i) = frm \<and> cartridge (myCache s ! i) = cart) (scan_order s)")
  case (Some i)
  have "cache_inv (touch i s)"
    using assms find_key_hit(1,2) [OF Some] by (rule touch_inv)
  then show ?thesis
    using Some by (simp add: put_cart_cache_def Let_def cache_inv_payload)
next
  case None
  note nokey = None
  note miss = find_key_miss [OF None]
  show ?thesis
  proof (cases "numberOfUnoccupiedFrames s = 0")
    case False
    then show ?thesis
      using None insert_inv [OF assms False miss]
      by (simp add: put_cart_cache_def Let_def)
  next
    case True
    show ?thesis
    proof (cases "find (\<lambda>i. priority (myCache s ! i) = int (myMaxFrames s)) (scan_order s)")
      case None
      then show ?thesis
        using nokey True assms
        by (simp add: put_cart_cache_def)
    next
      case (Some i)
      note i = find_victim_hit [OF Some]
      have tinv: "cache_inv (touch i s)"
        using assms i by (rule touch_inv)
      have len: "length (myCache s) = myMaxFrames s"
        using assms by (simp add: cache_inv_def)
      have "cache_inv ((touch i s)\<lparr>myCache := (myCache (touch i s))[i := (myCache (touch i s) ! i)
             \<lparr>frame := frm, cartridge := cart, cache := buf\<rparr>]\<rparr>)"
      proof (rule evict_inv [OF tinv])
        show "numberOfUnoccupiedFrames (touch i s) \<le> i" "i < myMaxFrames (touch i s)"
          using i by (simp_all add: touch_fields)
      next
        fix j
        assume "numberOfUnoccupiedFrames (touch i s) \<le> j" "j < myMaxFrames (touch i s)"
        then have j: "numberOfUnoccupiedFrames s \<le> j" "j < myMaxFrames s"
          by (simp_all add: touch_fields)
        show "(cartridge (myCache (touch i s) ! j), frame (myCache (touch i s) ! j)) \<noteq> (cart, frm)"
          using miss [OF j] touch_key [OF len i(2) j(2)] by simp
      qed
      then show ?thesis
        using Some nokey True
        by (simp add: put_cart_cache_def Let_def)
    qed
  qed
qed

lemma get_cart_cache_inv:
  assumes "cache_inv s"
  shows "cache_inv (snd (get_cart_cache cart frm s))"
proof (cases "find (\<lambda>i. frame (myCache s ! i) = frm \<and> cartridge (myCache s ! i) = cart) (scan_order s)")
  case None
  then show ?thesis
    using assms by (simp add: get_cart_cache_def)
next
  case (Some i)
  have "cache_inv (touch i s)"
    using assms find_key_hit(1,2) [OF Some] by (rule touch_inv)
  then show ?thesis
    using Some by (simp add: get_cart_cache_def Let_def)
qed

lemma init_inv:
  "cache_inv (snd (init_cart_cache (Some heap) (snd (set_cart_cache_size n s))))"
  by (simp add: cache_inv_def init_cart_cache_def set_cart_cache_size_def)

lemma fold_ops_inv: "cache_inv s \<Longrightarrow> cache_inv (fold apply_cache_op ops s)"
proof (induction ops arbitrary: s)
  case Nil
  then show ?case by simp
next
  case (Cons a ops)
  have "cache_inv (apply_cache_op a s)"
    using Cons.prems by (cases a) (simp_all add: put_cart_cache_inv get_cart_cache_inv)
  then show ?case
    using Cons.IH by simp
qed

lemma cache_after_inv: "cache_inv (cache_after n heap ops)"
  unfolding cache_after_def by (rule fold_ops_inv) (rule init_inv)


lemma cache_after_fields:
  "myMaxFrames (cache_after n heap ops) = n"
  "length (myCache (cache_after n heap ops)) = n"
proof -
  have a: "\<And>a s. myMaxFrames (apply_cache_op a s) = myMaxFrames s"
    subgoal for a s
      by (cases a)
        (auto simp: put_cart_cache_def get_cart_cache_def Let_def touch_fields
          split: option.splits)
    done
  have b: "\<And>s. myMaxFrames (fold apply_cache_op ops s) = myMaxFrames s"
    by (induction ops) (simp_all add: a)
  show "myMaxFrames (cache_after n heap ops) = n"
    by (simp add: cache_after_def b init_cart_cache_def set_cart_cache_size_def)
  then show "length (myCache (cache_after n heap ops)) = n"
    using cache_after_inv [of n heap ops] by (simp add: cache_inv_def)
qed

lemma occupied_conv:
  assumes "length (myCache s) = myMaxFrames s"
  shows "occupied s = map (\<lambda>j. myCache s ! j) [numberOfUnoccupiedFrames s..<myMaxFrames s]"
proof -
  have "drop (numberOfUnoccupiedFrames s) (myCache s)
      = drop (numberOfUnoccupiedFrames s) (map (\<lambda>j. myCache s ! j) [0..<length (myCache s)])"
    by (simp only: map_nth)
  also have "\<dots> = map (\<lambda>j. myCache s ! j) [numberOfUnoccupiedFrames s..<myMaxFrames s]"
    by (simp add: drop_map assms)
  finally show ?thesis
    by (simp add: occupied_def)
qed

lemma cache_inv_mset:
  assumes "cache_inv s"
  shows "mset (map priority (occupied s))
     = mset (map int [numberOfUnoccupiedFrames s + 1..<myMaxFrames s + 1])"
proof -
  let ?U = "numberOfUnoccupiedFrames s" and ?N = "myMaxFrames s"
  have len: "length (myCache s) = ?N"
    and inj: "inj_on (\<lambda>j. priority (myCache s ! j)) {?U..<?N}"
    and img: "(\<lambda>j. priority (myCache s ! j)) ` {?U..<?N} = {int ?U + 1..int ?N}"
    using assms by (simp_all add: cache_inv_def)
  have eq: "map priority (occupied s) = map (\<lambda>j. priority (myCache s ! j)) [?U..<?N]"
    by (simp add: occupied_conv [OF len] comp_def)
  have d1: "distinct (map priority (occupied s))"
    unfolding eq using inj by (simp add: distinct_map)
  have d2: "distinct (map int [?U + 1..<?N + 1])"
    by (simp add: distinct_map)
  have "set (map int [?U + 1..<?N + 1]) = {int ?U + 1..int ?N}"
  proof -
    have "int ` {?U + 1..<?N + 1} = {int (?U + 1)..<int (?N + 1)}"
      by (rule image_int_atLeastLessThan)
    also have "\<dots> = {int ?U + 1..int ?N}"
      by auto
    finally show ?thesis by (simp only: set_map set_upt)
  qed
  moreover have "set (map priority (occupied s)) = {int ?U + 1..int ?N}"
    unfolding eq using img by simp
  ultimately have "set (map priority (occupied s)) = set (map int [?U + 1..<?N + 1])"
    by simp
  then show ?thesis
    using d1 d2 by (simp only: set_eq_iff_mset_eq_distinct)
qed

lemmas cache_eval_simps =
  cache_after_def init_cart_cache_def set_cart_cache_size_def put_cart_cache_def
  get_cart_cache_def touch_def adjust_priority_def adjust_step_def scan_order_def
  occupied_def zero_heap_def Let_def


lemma occupied_set:
  assumes "length (myCache s) = myMaxFrames s"
  shows "set (occupied s) = (\<lambda>j. myCache s ! j) ` {numberOfUnoccupiedFrames s..<myMaxFrames s}"
  by (simp add: occupied_conv [OF assms])

lemma freshest_entry:
  assumes inv: "cache_inv t"
    and i: "numberOfUnoccupiedFrames t \<le> i" "i < myMaxFrames t"
    and key: "cartridge (myCache t ! i) = c" "frame (myCache t ! i) = f"
    and pr: "priority (myCache t ! i) = int (numberOfUnoccupiedFrames t) + 1"
  shows "(\<exists>e\<in>set (occupied t). cartridge e = c \<and> frame e = f) \<and>
         (\<forall>e\<in>set (occupied t). cartridge e = c \<and> frame e = f \<longrightarrow>
             priority e = int (numberOfUnoccupiedFrames t) + 1)"
proof -
  have len: "length (myCache t) = myMaxFrames t"
    and keys: "inj_on (\<lambda>j. (cartridge (myCache t ! j), frame (myCache t ! j)))
        {numberOfUnoccupiedFrames t..<myMaxFrames t}"
    using inv by (simp_all add: cache_inv_def)
  have ex: "\<exists>e\<in>set (occupied t). cartridge e = c \<and> frame e = f"
    unfolding occupied_set [OF len] using i key by auto
  have un: "\<forall>e\<in>set (occupied t). cartridge e = c \<and> frame e = f \<longrightarrow>
             priority e = int (numberOfUnoccupiedFrames t) + 1"
  proof (intro ballI impI)
    fix e
    assume e: "e \<in> set (occupied t)" and k: "cartridge e = c \<and> frame e = f"
    from e obtain j where j: "j \<in> {numberOfUnoccupiedFrames t..<myMaxFrames t}"
      and ej: "e = myCache t ! j"
      unfolding occupied_set [OF len] by auto
    have "(cartridge (myCache t ! j), frame (myCache t ! j))
        = (cartridge (myCache t ! i), frame (myCache t ! i))"
      using k ej key by simp
    then have "j = i"
      using keys j i by (auto simp: inj_on_def)
    then show "priority e = int (numberOfUnoccupiedFrames t) + 1"
      using ej pr by simp
  qed
  show ?thesis
    using ex un by (rule conjI)
qed

lemma lowest_priority:
  assumes inv: "cache_inv t"
  shows "\<forall>e\<in>set (occupied t). int (numberOfUnoccupiedFrames t) + 1 \<le> priority e"
proof
  fix e
  assume e: "e \<in> set (occupied t)"
  have len: "length (myCache t) = myMaxFrames t"
    and img: "(\<lambda>j. priority (myCache t ! j)) ` {numberOfUnoccupiedFrames t..<myMaxFrames t}
        = {int (numberOfUnoccupiedFrames t) + 1..int (myMaxFrames t)}"
    using inv by (simp_all add: cache_inv_def)
  from e obtain j where j: "j \<in> {numberOfUnoccupiedFrames t..<myMaxFrames t}"
    and ej: "e = myCache t ! j"
    unfolding occupied_set [OF len] by auto
  have "priority (myCache t ! j) \<in> {int (numberOfUnoccupiedFrames t) + 1..int (myMaxFrames t)}"
    using img j by blast
  then show "int (numberOfUnoccupiedFrames t) + 1 \<le> priority e"
    using ej by simp
qed

lemma touch_at:
  assumes "length (myCache s) = myMaxFrames s" "i < myMaxFrames s"
  shows "priority (myCache (touch i s) ! i) = int (numberOfUnoccupiedFrames s) + 1"
  using assms by (simp add: touch_nth)

lemma put_cart_cache_slot:
  assumes inv: "cache_inv s" and ok: "fst (put_cart_cache c f b s) = 0"
  shows "\<exists>i. numberOfUnoccupiedFrames (snd (put_cart_cache c f b s)) \<le> i \<and>
             i < myMaxFrames (snd (put_cart_cache c f b s)) \<and>
             cartridge (myCache (snd (put_cart_cache c f b s)) ! i) = c \<and>
             frame (myCache (snd (put_cart_cache c f b s)) ! i) = f \<and>
             priority (myCache (snd (put_cart_cache c f b s)) ! i)
               = int (numberOfUnoccupiedFrames (snd (put_cart_cache c f b s))) + 1"
proof -
  have len: "length (myCache s) = myMaxFrames s" and le: "numberOfUnoccupiedFrames s \<le> myMaxFrames s"
    using inv by (simp_all add: cache_inv_def)
  show ?thesis
  proof (cases "find (\<lambda>i. frame (myCache s ! i) = f \<and> cartridge (myCache s ! i) = c) (scan_order s)")
    case (Some i)
    note h = find_key_hit [OF Some]
    show ?thesis
      using Some h len touch_key [OF len h(2) h(2)] touch_at [OF len h(2)]
      by (intro exI [of _ i]) (simp add: put_cart_cache_def Let_def touch_fields)
  next
    case None
    note nokey = None
    show ?thesis
    proof (cases "numberOfUnoccupiedFrames s = 0")
      case False
      then show ?thesis
        using nokey len le
        by (intro exI [of _ "numberOfUnoccupiedFrames s - 1"])
           (simp add: put_cart_cache_def Let_def)
    next
      case True
      show ?thesis
      proof (cases "find (\<lambda>i. priority (myCache s ! i) = int (myMaxFrames s)) (scan_order s)")
        case None
        then show ?thesis
          using nokey True ok by (simp add: put_cart_cache_def)
      next
        case (Some i)
        note h = find_victim_hit [OF Some]
        show ?thesis
          using Some nokey True h len touch_at [OF len h(2)]
          by (intro exI [of _ i]) (simp add: put_cart_cache_def Let_def touch_fields)
      qed
    qed
  qed
qed

lemma get_cart_cache_slot:
  assumes inv: "cache_inv s" and hit: "fst (get_cart_cache c f s) \<noteq> None"
  shows "\<exists>i. numberOfUnoccupiedFrames (snd (get_cart_cache c f s)) \<le> i \<and>
             i < myMaxFrames (snd (get_cart_cache c f s)) \<and>
             cartridge (myCache (snd (get_cart_cache c f s)) ! i) = c \<and>
             frame (myCache (snd (get_cart_cache c f s)) ! i) = f \<and>
             priority (myCache (snd (get_cart_cache c f s)) ! i)
               = int (numberOfUnoccupiedFrames (snd (get_cart_cache c f s))) + 1"
proof (cases "find (\<lambda>i. frame (myCache s ! i) = f \<and> cartridge (myCache s ! i) = c) (scan_order s)")
  case None
  then show ?thesis
    using hit by (simp add: get_cart_cache_def)
next
  case (Some i)
  have len: "length (myCache s) = myMaxFrames s"
    using inv by (simp add: cache_inv_def)
  note h = find_key_hit [OF Some]
  show ?thesis
    using Some h len touch_key [OF len h(2) h(2)] touch_at [OF len h(2)]
    by (intro exI [of _ i]) (simp add: get_cart_cache_def Let_def touch_fields)
qed

text \<open>
  C1 as the spec states it fails: in a cache of capacity 2 holding one frame, the one
  priority is 2, and the multiset of priorities is not \<open>{1}\<close>.
\<close>

theorem cache_priority_one_based_counterexample:
  "mset (map priority (occupied (cache_after 2 zero_heap [Put 0 0 []])))
     \<noteq> mset (map int [1..<length (occupied (cache_after 2 zero_heap [Put 0 0 []])) + 1])"
  by (simp add: cache_eval_simps upt_rec numeral_2_eq_2)

text \<open>
  C1, amended. After initialisation (with a capacity that an \<^verbatim>\<open>int\<close> holds) and any
  sequence of puts and gets, the multiset of
  the priorities of the occupied entries is that of the integers from
  \<^verbatim>\<open>numberOfUnoccupiedFrames + 1\<close> to the capacity: the priorities are pairwise
  distinct and lie in that range. It is \<open>{1..occupied_count}\<close> once the cache is full.
\<close>

theorem cache_priority_multiset:
  assumes "n < 2 ^ 31"
  shows "mset (map priority (occupied (cache_after n heap ops)))
     = mset (map int [numberOfUnoccupiedFrames (cache_after n heap ops) + 1..<n + 1])"
  using cache_inv_mset [OF cache_after_inv, of n heap ops]
  by (simp add: cache_after_fields)

theorem cache_priority_multiset_witness:
  "(3 :: nat) < 2 ^ 31 \<and>
   mset (map priority (occupied (cache_after 3 zero_heap [Put 0 0 [], Put 0 1 [], Get 0 0])))
     = mset (map int [numberOfUnoccupiedFrames
                        (cache_after 3 zero_heap [Put 0 0 [], Put 0 1 [], Get 0 0]) + 1..<3 + 1])"
  using cache_priority_multiset [of 3 zero_heap "[Put 0 0 [], Put 0 1 [], Get 0 0]"]
  by simp

text \<open>
  C4 as the spec states it fails: after a put into an empty cache of capacity 2, the one
  occupied entry is the entry of the key, and its priority is 2.
\<close>

theorem cache_mru_counterexample:
  "occupied (snd (put_cart_cache 0 0 [] (cache_after 2 zero_heap [])))
     = [\<lparr>frame = 0, cartridge = 0, cache = [], priority = 2\<rparr>]"
  by (simp add: cache_eval_simps upt_rec numeral_2_eq_2)

text \<open>
  C4, amended. In a cache reached from initialisation by puts and gets, after a
  \<^verbatim>\<open>put_cart_cache\<close> of the key \<open>(c, f)\<close> that returns 0, and after a
  \<^verbatim>\<open>get_cart_cache\<close> of the key that hits, an occupied entry has the key, every
  occupied entry with the key has priority exactly \<^verbatim>\<open>numberOfUnoccupiedFrames + 1\<close>,
  and that is the smallest priority in the cache (it is 1 once the cache is full).
\<close>

theorem cache_mru:
  assumes "n < 2 ^ 31"
  shows "(fst (put_cart_cache c f b (cache_after n heap ops)) = 0 \<longrightarrow>
      freshest c f (snd (put_cart_cache c f b (cache_after n heap ops)))) \<and>
   (fst (get_cart_cache c f (cache_after n heap ops)) \<noteq> None \<longrightarrow>
      freshest c f (snd (get_cart_cache c f (cache_after n heap ops))))"
proof (intro conjI impI)
  let ?s = "cache_after n heap ops"
  have inv: "cache_inv ?s" by (rule cache_after_inv)
  {
    assume ok: "fst (put_cart_cache c f b ?s) = 0"
    have inv': "cache_inv (snd (put_cart_cache c f b ?s))"
      using inv by (rule put_cart_cache_inv)
    from put_cart_cache_slot [OF inv ok] obtain i where
      "numberOfUnoccupiedFrames (snd (put_cart_cache c f b ?s)) \<le> i"
      "i < myMaxFrames (snd (put_cart_cache c f b ?s))"
      "cartridge (myCache (snd (put_cart_cache c f b ?s)) ! i) = c"
      "frame (myCache (snd (put_cart_cache c f b ?s)) ! i) = f"
      "priority (myCache (snd (put_cart_cache c f b ?s)) ! i)
               = int (numberOfUnoccupiedFrames (snd (put_cart_cache c f b ?s))) + 1"
      by blast
    from freshest_entry [OF inv' this] lowest_priority [OF inv']
    show "freshest c f (snd (put_cart_cache c f b ?s))"
      by (simp add: freshest_def)
  }
  {
    assume hit: "fst (get_cart_cache c f ?s) \<noteq> None"
    have inv': "cache_inv (snd (get_cart_cache c f ?s))"
      using inv by (rule get_cart_cache_inv)
    from get_cart_cache_slot [OF inv hit] obtain i where
      "numberOfUnoccupiedFrames (snd (get_cart_cache c f ?s)) \<le> i"
      "i < myMaxFrames (snd (get_cart_cache c f ?s))"
      "cartridge (myCache (snd (get_cart_cache c f ?s)) ! i) = c"
      "frame (myCache (snd (get_cart_cache c f ?s)) ! i) = f"
      "priority (myCache (snd (get_cart_cache c f ?s)) ! i)
               = int (numberOfUnoccupiedFrames (snd (get_cart_cache c f ?s))) + 1"
      by blast
    from freshest_entry [OF inv' this] lowest_priority [OF inv']
    show "freshest c f (snd (get_cart_cache c f ?s))"
      by (simp add: freshest_def)
  }
qed

theorem cache_mru_witness:
  "(2 :: nat) < 2 ^ 31 \<and>
   fst (put_cart_cache 0 7 [] (cache_after 2 zero_heap [Put 0 7 [], Put 0 8 []])) = 0 \<and>
   freshest 0 7 (snd (put_cart_cache 0 7 [] (cache_after 2 zero_heap [Put 0 7 [], Put 0 8 []]))) \<and>
   fst (get_cart_cache 0 7 (cache_after 2 zero_heap [Put 0 7 [], Put 0 8 []])) \<noteq> None \<and>
   freshest 0 7 (snd (get_cart_cache 0 7 (cache_after 2 zero_heap [Put 0 7 [], Put 0 8 []])))"
proof -
  have p: "fst (put_cart_cache 0 7 [] (cache_after 2 zero_heap [Put 0 7 [], Put 0 8 []])) = 0"
    by (simp add: cache_eval_simps upt_rec numeral_2_eq_2)
  have g: "fst (get_cart_cache 0 7 (cache_after 2 zero_heap [Put 0 7 [], Put 0 8 []])) \<noteq> None"
    by (simp add: cache_eval_simps upt_rec numeral_2_eq_2)
  show ?thesis
    using p g cache_mru [of 2 0 7 "[]" zero_heap "[Put 0 7 [], Put 0 8 []]"] by simp
qed

text \<open>
  C10 as stated fails for a cache of capacity 0: it is full from the start, nothing is
  occupied, and \<^verbatim>\<open>put_cart_cache\<close> returns -1.
\<close>

theorem put_cart_cache_total_counterexample:
  "numberOfUnoccupiedFrames (cache_after 0 zero_heap []) = 0 \<and>
   fst (put_cart_cache 0 0 [] (cache_after 0 zero_heap [])) = - 1"
  by (simp add: cache_eval_simps)

text \<open>
  C10, amended. In a cache of capacity at least 1 reached from initialisation by puts
  and gets: when no entry is free, some occupied entry has priority \<^verbatim>\<open>myMaxFrames\<close>,
  and \<^verbatim>\<open>put_cart_cache\<close> returns 0, never -1.
\<close>

theorem put_cart_cache_total:
  assumes "0 < n" "n < 2 ^ 31"
  shows "(numberOfUnoccupiedFrames (cache_after n heap ops) = 0 \<longrightarrow>
            (\<exists>e\<in>set (occupied (cache_after n heap ops)). priority e = int n)) \<and>
         fst (put_cart_cache c f b (cache_after n heap ops)) = 0"
proof -
  let ?s = "cache_after n heap ops"
  have inv: "cache_inv ?s" by (rule cache_after_inv)
  have N: "myMaxFrames ?s = n" and len: "length (myCache ?s) = myMaxFrames ?s"
    by (simp_all add: cache_after_fields)
  have img: "(\<lambda>j. priority (myCache ?s ! j)) ` {numberOfUnoccupiedFrames ?s..<myMaxFrames ?s}
        = {int (numberOfUnoccupiedFrames ?s) + 1..int (myMaxFrames ?s)}"
    using inv by (simp add: cache_inv_def)
  have full: "\<exists>j\<in>{numberOfUnoccupiedFrames ?s..<myMaxFrames ?s}. priority (myCache ?s ! j) = int n"
    if "numberOfUnoccupiedFrames ?s = 0"
  proof -
    have "int n \<in> {int (numberOfUnoccupiedFrames ?s) + 1..int (myMaxFrames ?s)}"
      using that assms(1) N by simp
    then have "int n \<in> (\<lambda>j. priority (myCache ?s ! j)) ` {numberOfUnoccupiedFrames ?s..<myMaxFrames ?s}"
      by (simp only: img)
    then show ?thesis by auto
  qed
  have a: "numberOfUnoccupiedFrames ?s = 0 \<longrightarrow> (\<exists>e\<in>set (occupied ?s). priority e = int n)"
    unfolding occupied_set [OF len] using full by auto
  have b: "fst (put_cart_cache c f b ?s) = 0"
  proof (cases "numberOfUnoccupiedFrames ?s = 0")
    case False
    then show ?thesis
      by (simp add: put_cart_cache_def Let_def split: option.splits)
  next
    case True
    from full [OF True] have "find (\<lambda>i. priority (myCache ?s ! i) = int (myMaxFrames ?s)) (scan_order ?s) \<noteq> None"
      by (auto simp: find_None_iff scan_order_set N)
    then show ?thesis
      by (auto simp: put_cart_cache_def Let_def split: option.splits)
  qed
  show ?thesis
    using a b by (rule conjI)
qed

theorem put_cart_cache_total_witness:
  "(0::nat) < 1 \<and> (1::nat) < 2 ^ 31 \<and>
   numberOfUnoccupiedFrames (cache_after 1 zero_heap [Put 0 0 []]) = 0 \<and>
   (\<exists>e\<in>set (occupied (cache_after 1 zero_heap [Put 0 0 []])). priority e = int 1) \<and>
   fst (put_cart_cache 0 1 [] (cache_after 1 zero_heap [Put 0 0 []])) = 0"
proof -
  have u: "numberOfUnoccupiedFrames (cache_after 1 zero_heap [Put 0 0 []]) = 0"
    by (simp add: cache_eval_simps)
  show ?thesis
    using u put_cart_cache_total [of 1 zero_heap "[Put 0 0 []]" 0 1 "[]"] by simp
qed

section \<open>The driver: proofs\<close>

lemma length_as_word:
  assumes "0 \<le> n" "n < 2 ^ 31"
  shows "((word_of_int n :: 32 word) < loc) = (n < uint loc)"
proof -
  have "uint (word_of_int n :: 32 word) = n"
    using assms by (simp add: uint_word_of_int take_bit_int_eq_self)
  then show ?thesis
    by (simp add: word_less_def)
qed

lemma sint_small:
  assumes "uint (loc :: 32 word) \<le> n" "n < 2 ^ 31"
  shows "sint loc = uint loc"
proof -
  have "uint loc < 2 ^ 31" using assms by simp
  moreover have "- (2 ^ 31) \<le> uint loc"
    by (rule order_trans [of _ 0]) simp_all
  ultimately have "signed_take_bit 31 (uint loc) = uint loc"
    by (intro signed_take_bit_int_eq_self) simp_all
  then show ?thesis
    by (simp add: sint_uint)
qed

text \<open>
  The lookup loop of the code finds the first record that has the handle, and finds
  none when no record has it.
\<close>

lemma find_fd_from:
  assumes "i \<le> k" "k \<le> n" "n < length fs" "fileHandle (fs ! k) = fd"
    and "\<forall>j. i \<le> j \<and> j < k \<longrightarrow> fileHandle (fs ! j) \<noteq> fd"
  shows "find_fd fs fd [i..<Suc n] = Inr (Some k)"
  using assms
proof (induction "k - i" arbitrary: i)
  case 0
  then have ik: "i = k" by simp
  have "[k..<Suc n] = k # [Suc k..<Suc n]"
    using "0.prems"(2) by (simp add: upt_conv_Cons)
  moreover have "fs \<noteq> []" "\<not> length fs \<le> k"
    using "0.prems"(2,3) by auto
  ultimately show ?case
    using "0.prems"(4) ik by simp
next
  case (Suc d)
  then have lt: "i < k" by simp
  have split: "[i..<Suc n] = i # [Suc i..<Suc n]"
    using lt Suc.prems(2) by (simp add: upt_conv_Cons)
  have ne: "fs \<noteq> []" "\<not> length fs \<le> i"
    using lt Suc.prems(2,3) by auto
  have other: "fileHandle (fs ! i) \<noteq> fd"
    using Suc.prems(5) lt by simp
  have d: "d = k - Suc i"
    using Suc.hyps(2) by simp
  have rest: "\<forall>j. Suc i \<le> j \<and> j < k \<longrightarrow> fileHandle (fs ! j) \<noteq> fd"
    using Suc.prems(5) by simp
  have "find_fd fs fd [Suc i..<Suc n] = Inr (Some k)"
    using lt Suc.prems(2,3,4) rest by (intro Suc.hyps(1) [OF d]) simp_all
  then show ?case
    unfolding split using ne other by simp
qed

lemma find_fd_first:
  assumes "open_at s fd k"
  shows "find_fd (filesystem s) fd [0..<Suc (fileSystemSize s)] = Inr (Some k)"
  using assms unfolding open_at_def
  by (intro find_fd_from) simp_all

lemma find_fd_none_from:
  assumes "n < length fs" "\<forall>j\<le>n. fileHandle (fs ! j) \<noteq> fd"
  shows "find_fd fs fd [i..<Suc n] = Inr None"
  using assms
proof (induction "Suc n - i" arbitrary: i)
  case 0
  then show ?case by simp
next
  case (Suc d)
  then have le: "i \<le> n" by simp
  have split: "[i..<Suc n] = i # [Suc i..<Suc n]"
    using le by (simp add: upt_conv_Cons)
  have ne: "fs \<noteq> []" "\<not> length fs \<le> i"
    using le Suc.prems(1) by auto
  have other: "fileHandle (fs ! i) \<noteq> fd"
    using Suc.prems(2) le by simp
  have d: "d = Suc n - Suc i"
    using Suc.hyps(2) by simp
  have "find_fd fs fd [Suc i..<Suc n] = Inr None"
    using Suc.prems by (intro Suc.hyps(1) [OF d])
  then show ?case
    unfolding split using ne other by simp
qed

lemma find_fd_unknown:
  assumes "unknown_handle s fd"
  shows "find_fd (filesystem s) fd [0..<Suc (fileSystemSize s)] = Inr None"
  using assms unfolding unknown_handle_def
  by (intro find_fd_none_from) simp_all

text \<open>A handle that no record has is refused, and nothing changes.\<close>

lemma cart_seek_unknown_handle:
  assumes "unknown_handle s fd"
  shows "cart_seek fd loc s = Inr (- 1, s)"
  by (simp add: cart_seek_def find_fd_unknown [OF assms] del: upt_Suc)

text \<open>
  C8. Let \<open>fd\<close> be an open handle: it is not 0, and \<open>k\<close> is the first record of the
  file system whose handle is \<open>fd\<close> (the only one when handles are unique). Let the
  length of that record be a non-negative \<^verbatim>\<open>int32_t\<close>. Then \<^verbatim>\<open>cart_seek\<close> with \<open>loc\<close>
  greater than the length returns -1 and leaves the whole state as it was; with
  \<open>loc\<close> at most the length it returns 0 and the only change is that the pointer of
  record \<open>k\<close> is \<open>loc\<close>.
\<close>

theorem cart_seek_bounds:
  assumes "open_at s fd k"
    and "0 \<le> file_length (filesystem s ! k)" "file_length (filesystem s ! k) < 2 ^ 31"
  shows "cart_seek fd loc s =
     (if file_length (filesystem s ! k) < uint loc then Inr (- 1, s)
      else Inr (0, s\<lparr>filesystem := (filesystem s)[k := (filesystem s ! k)\<lparr>filePointer := uint loc\<rparr>]\<rparr>))"
proof -
  have found: "find_fd (filesystem s) fd [0..<Suc (fileSystemSize s)] = Inr (Some k)"
    using assms(1) by (rule find_fd_first)
  have op: "fileHandle (filesystem s ! k) \<noteq> 0"
    using assms(1) by (simp add: open_at_def)
  show ?thesis
  proof (cases "file_length (filesystem s ! k) < uint loc")
    case True
    then show ?thesis
      using assms(2,3) op
      by (simp add: cart_seek_def found length_as_word del: upt_Suc)
  next
    case False
    then have "sint loc = uint loc"
      using assms(3) by (intro sint_small [where n = "file_length (filesystem s ! k)"]) simp_all
    then show ?thesis
      using False assms(2,3) op
      by (simp add: cart_seek_def found length_as_word del: upt_Suc)
  qed
qed

text \<open>
  The example has two records. Handle 2 is open at record 1: a seek to 6, past its
  five bytes, is refused and changes nothing; a seek to 4 moves the pointer of record
  1 from 5 to 4 and leaves record 0, with handle 1 and its pointer at 3, as it was.
\<close>

theorem cart_seek_bounds_witness:
  "open_at seek_example 2 1 \<and>
   0 \<le> file_length (filesystem seek_example ! 1) \<and>
   file_length (filesystem seek_example ! 1) < 2 ^ 31 \<and>
   cart_seek 2 6 seek_example = Inr (- 1, seek_example) \<and>
   cart_seek 2 4 seek_example
     = Inr (0, seek_example\<lparr>filesystem :=
          (filesystem seek_example)[1 := (filesystem seek_example ! 1)\<lparr>filePointer := 4\<rparr>]\<rparr>) \<and>
   map (\<lambda>f. (fileName f, fileHandle f, filePointer f))
     ((filesystem seek_example)[1 := (filesystem seek_example ! 1)\<lparr>filePointer := 4\<rparr>])
     = [(''a'', 1, 3), (''b'', 2, 4)]"
proof -
  have fs: "filesystem seek_example =
      [(new_file ''a'' 1 (driver_start 1 []))\<lparr>file_length := 3, filePointer := 3\<rparr>,
       (new_file ''b'' 2 (driver_start 1 []))\<lparr>file_length := 5, filePointer := 5\<rparr>]"
    and n: "fileSystemSize seek_example = 1"
    by (simp_all add: seek_example_def)
  have h: "open_at seek_example 2 1"
    by (simp add: open_at_def fs n new_file_def)
  have l: "file_length (filesystem seek_example ! 1) = 5"
    by (simp add: fs new_file_def)
  have l0: "0 \<le> file_length (filesystem seek_example ! 1)"
    and l1: "file_length (filesystem seek_example ! 1) < 2 ^ 31"
    using l by simp_all
  have t: "map (\<lambda>f. (fileName f, fileHandle f, filePointer f))
     ((filesystem seek_example)[1 := (filesystem seek_example ! 1)\<lparr>filePointer := 4\<rparr>])
     = [(''a'', 1, 3), (''b'', 2, 4)]"
    by (simp add: fs new_file_def)
  show ?thesis
    using h l l0 l1 t cart_seek_bounds [OF h l0 l1, of 6] cart_seek_bounds [OF h l0 l1, of 4]
    by simp
qed

lemma runBusRequest_files:
  "filesystem (snd (runBusRequest fsz ky ct fm s)) = filesystem s"
  "fileSystemSize (snd (runBusRequest fsz ky ct fm s)) = fileSystemSize s"
  by (simp_all add: runBusRequest_def client_cart_bus_request_def Let_def
        split: list.splits prod.splits)

lemma poweron_loop_files:
  "filesystem (snd (poweron_loop fsz is s)) = filesystem s \<and>
   fileSystemSize (snd (poweron_loop fsz is s)) = fileSystemSize s"
  by (induction "is" arbitrary: s) (simp_all add: Let_def runBusRequest_files)

lemma cart_poweron_files:
  "filesystem (snd (cart_poweron fsz mc heap s)) = filesystem s"
  "fileSystemSize (snd (cart_poweron fsz mc heap s)) = fileSystemSize s"
  using poweron_loop_files [of fsz "map int [0..<mc]" "snd (runBusRequest fsz 0 0 0 s)"]
  by (auto simp: cart_poweron_def Let_def runBusRequest_files split: prod.splits)

text \<open>
  What \<^verbatim>\<open>cart_poweron\<close> does when the controller answers every exchange with return
  code 0: it returns 0 after exactly the INIT request followed by LOAD \<open>c\<close> and ZERO
  for each cartridge \<open>c\<close> in increasing order, and the loaded cartridge is the last.
\<close>

lemma runBusRequest_reply:
  assumes "bus_replies s = (w, p) # rest" "ky \<noteq> 3"
  shows "snd (runBusRequest fsz ky ct fm s)
     = s\<lparr>regstate := readBusResponse w, bus_replies := rest,
         bus_requests := bus_requests s @ [request ky ct fm]\<rparr>"
  using assms
  by (simp add: runBusRequest_def client_cart_bus_request_def Let_def codec_fields request_def)

lemma poweron_loop_trace:
  assumes "2 * length cs \<le> length (bus_replies s)"
    and "\<forall>r\<in>set (take (2 * length cs) (bus_replies s)). reply_ok r"
  shows "fst (poweron_loop fsz cs s) = 0 \<and>
     bus_requests (snd (poweron_loop fsz cs s))
       = bus_requests s @ concat (map (\<lambda>i. [request 2 (word_of_int i) 0, request 1 0 0]) cs) \<and>
     bus_replies (snd (poweron_loop fsz cs s)) = drop (2 * length cs) (bus_replies s) \<and>
     currentlyLoadedCartridge (snd (poweron_loop fsz cs s))
       = (if cs = [] then currentlyLoadedCartridge s else last cs) \<and>
     cache_globals (snd (poweron_loop fsz cs s)) = cache_globals s"
  using assms
proof (induction cs arbitrary: s)
  case Nil
  then show ?case by simp
next
  case (Cons i cs)
  from Cons.prems(1) obtain r1 r2 rest where rep: "bus_replies s = r1 # r2 # rest"
    by (cases "bus_replies s"; cases "tl (bus_replies s)") auto
  obtain w1 p1 w2 p2 where r: "r1 = (w1, p1)" "r2 = (w2, p2)"
    by (cases r1; cases r2) auto
  have ok: "rt (readBusResponse w1) = 0" "rt (readBusResponse w2) = 0"
    using Cons.prems(2) rep r by (simp_all add: reply_ok_def)
  let ?t1 = "s\<lparr>regstate := readBusResponse w1, bus_replies := r2 # rest,
         bus_requests := bus_requests s @ [request 2 (word_of_int i) 0]\<rparr>"
  have s1: "snd (runBusRequest fsz 2 (word_of_int i) 0 s) = ?t1"
    using rep r by (intro runBusRequest_reply) simp_all
  let ?t2 = "?t1\<lparr>regstate := readBusResponse w2, bus_replies := rest,
         bus_requests := bus_requests ?t1 @ [request 1 0 0]\<rparr>"
  have s2: "snd (runBusRequest fsz 1 0 0 ?t1) = ?t2"
    using r by (intro runBusRequest_reply) simp_all
  let ?s3 = "?t2\<lparr>currentlyLoadedCartridge := i\<rparr>"
  have step: "poweron_loop fsz (i # cs) s = poweron_loop fsz cs ?s3"
    using ok by (simp add: Let_def s1 s2)
  have rest3: "bus_replies ?s3 = rest"
    by simp
  have p1: "2 * length cs \<le> length (bus_replies ?s3)"
    using Cons.prems(1) rep by (simp add: rest3)
  have p2: "\<forall>r\<in>set (take (2 * length cs) (bus_replies ?s3)). reply_ok r"
    using Cons.prems(2) rep by (simp add: rest3)
  note IH = Cons.IH [OF p1 p2]
  have req3: "bus_requests ?s3 = bus_requests s @ [request 2 (word_of_int i) 0, request 1 0 0]"
    by simp
  have cg3: "cache_globals ?s3 = cache_globals s"
    by simp
  show ?case
    unfolding step using IH rep by (simp add: req3 cg3 rest3)
qed

lemma cart_poweron_trace:
  assumes "1 + 2 * mc \<le> length replies"
    and "\<forall>r\<in>set (take (1 + 2 * mc) replies). reply_ok r"
  shows "fst (cart_poweron fsz mc (Some heap) (driver_start n replies)) = 0"
    and "bus_requests (snd (cart_poweron fsz mc (Some heap) (driver_start n replies)))
       = request 0 0 0 # concat (map (\<lambda>i. [request 2 (word_of_int (int i)) 0, request 1 0 0]) [0..<mc])"
    and "0 < mc \<Longrightarrow>
       currentlyLoadedCartridge (snd (cart_poweron fsz mc (Some heap) (driver_start n replies)))
         = int mc - 1"
proof -
  let ?s = "driver_start n replies"
  from assms(1) obtain r0 rest where rep: "replies = r0 # rest"
    by (cases replies) auto
  obtain w0 p0 where r0: "r0 = (w0, p0)" by (cases r0) auto
  have ok0: "rt (readBusResponse w0) = 0"
    using assms(2) rep r0 by (simp add: reply_ok_def)
  let ?s1 = "snd (runBusRequest fsz 0 0 0 ?s)"
  have s1: "?s1 = ?s\<lparr>regstate := readBusResponse w0, bus_replies := rest,
         bus_requests := bus_requests ?s @ [request 0 0 0]\<rparr>"
    using rep r0 by (intro runBusRequest_reply) (simp_all add: driver_start_def)
  have rest1: "bus_replies ?s1 = rest" by (simp add: s1)
  have "bus_requests ?s = []" by (simp add: driver_start_def)
  then have req1: "bus_requests ?s1 = [request 0 0 0]" by (simp add: s1)
  have p1: "2 * length (map int [0..<mc]) \<le> length (bus_replies ?s1)"
    unfolding rest1 using assms(1) rep by simp
  have p2: "\<forall>r\<in>set (take (2 * length (map int [0..<mc])) (bus_replies ?s1)). reply_ok r"
    unfolding rest1 using assms(2) rep by simp
  note L = poweron_loop_trace [OF p1 p2, of fsz]
  obtain r s2 where loop: "poweron_loop fsz (map int [0..<mc]) ?s1 = (r, s2)"
    by (cases "poweron_loop fsz (map int [0..<mc]) ?s1") auto
  have r: "r = 0" using L loop by simp
  have res: "cart_poweron fsz mc (Some heap) ?s
      = (0, s2\<lparr>cache_globals := snd (init_cart_cache (Some heap) (cache_globals s2))\<rparr>)"
    using ok0 loop r
    by (simp add: cart_poweron_def Let_def s1 init_cart_cache_def split: prod.splits)
  show "fst (cart_poweron fsz mc (Some heap) ?s) = 0"
    by (simp add: res)
  have "bus_requests s2 = bus_requests ?s1 @ concat (map (\<lambda>i. [request 2 (word_of_int i) 0, request 1 0 0]) (map int [0..<mc]))"
    using L loop by simp
  then show "bus_requests (snd (cart_poweron fsz mc (Some heap) ?s))
       = request 0 0 0 # concat (map (\<lambda>i. [request 2 (word_of_int (int i)) 0, request 1 0 0]) [0..<mc])"
    by (simp add: res req1 comp_def)
  show "currentlyLoadedCartridge (snd (cart_poweron fsz mc (Some heap) ?s)) = int mc - 1"
    if "0 < mc"
  proof -
    have "currentlyLoadedCartridge s2 = last (map int [0..<mc])"
      using L loop that by simp
    also have "\<dots> = int (mc - 1)"
      using that by (simp add: last_map)
    finally show ?thesis
      using that by (simp add: res)
  qed
qed

text \<open>With one file opened in between, \<^verbatim>\<open>cart_poweroff\<close> returns 0.\<close>

lemma poweroff_with_a_file:
  "result (and_then (and_then (powered 1024 2 1 6) (cart_open ''a'')) (cart_poweroff 1024)) = Inr 0"
  by code_simp

text \<open>
  C6. The code does not do what the claim says. \<^verbatim>\<open>cart_poweron\<close> leaves the file
  system pointer as it found it; when no file was ever opened it is null, and the
  first statement of the loop of \<^verbatim>\<open>cart_poweroff\<close> dereferences it, before the
  power-off request is sent: whatever the frame size, the number of cartridges, the
  cache and the controller's replies, the call ends in the null-pointer fault.
\<close>

theorem poweroff_without_files:
  "cart_poweroff frame_size
     (snd (cart_poweron frame_size max_cartridges heap (driver_start max_frames replies)))
   = Inl NullPointer"
proof -
  have "filesystem (snd (cart_poweron frame_size max_cartridges heap (driver_start max_frames replies))) = []"
    by (simp add: cart_poweron_files driver_start_def)
  then show ?thesis
    by (simp add: cart_poweroff_def upt_rec)
qed

text \<open>
  Reopening in general: when the first record with the name is closed and is not the
  last record, \<^verbatim>\<open>cart_open\<close> returns a handle, the matching record still has handle
  0 afterwards, and the handle is in the last record.
\<close>

lemma cart_open_reopen:
  assumes len: "length (filesystem s) = Suc (fileSystemSize s)"
    and hit: "find (\<lambda>i. path = fileName (filesystem s ! i)) [0..<Suc (fileSystemSize s)] = Some i"
    and closed: "fileHandle (filesystem s ! i) = 0"
    and notlast: "i \<noteq> fileSystemSize s"
  shows "\<exists>h s'. cart_open path s = Inr (h, s') \<and>
           fileHandle (filesystem s' ! i) = 0 \<and>
           filePointer (filesystem s' ! i) = 0 \<and>
           fileHandle (filesystem s' ! fileSystemSize s) = h \<and>
           h = int16 (free_handle (map (\<lambda>j. fileHandle (filesystem s ! j)) [0..<Suc (fileSystemSize s)]) 0)"
proof -
  have ne: "filesystem s \<noteq> []"
    using len by auto
  from hit have "i \<in> set [0..<Suc (fileSystemSize s)]"
    by (metis find_Some_iff nth_mem)
  then have i: "i < Suc (fileSystemSize s)"
    by (simp only: set_upt atLeastLessThan_iff)
  show ?thesis
    using ne len hit closed notlast i
    by (simp add: cart_open_def Let_def)
qed

text \<open>
  C5. The code does not do what the claim says. After \<^verbatim>\<open>a\<close> and \<^verbatim>\<open>b\<close> are opened
  (handles 1 and 2) and \<^verbatim>\<open>a\<close> is closed, opening \<^verbatim>\<open>a\<close> again returns 1, but the record
  of \<^verbatim>\<open>a\<close> keeps handle 0 and the handle of the last record, \<^verbatim>\<open>b\<close>, is overwritten
  with 1.
\<close>

theorem reopen_marks_last_record:
  "file_table (and_then (and_then (powered 1024 2 1 5) (cart_open ''a'')) (cart_open ''b''))
     = Inr (2, [(''a'', 1, 0), (''b'', 2, 0)]) \<and>
   file_table reopen_scenario = Inr (1, [(''a'', 0, 0), (''b'', 1, 0)])"
  by code_simp

text \<open>
  Reading in general: when the pointer of an open file is at \<open>m\<close> frames, with \<open>m\<close>
  elements allocated for the slot arrays, a read of less than one frame indexes the
  arrays at \<open>m\<close>.
\<close>

lemma sdiv_exact:
  assumes "0 < fsz" "0 \<le> c" "c < int fsz"
  shows "(int fsz * int m + c) sdiv int fsz = int m"
proof -
  show ?thesis
  proof (cases "int fsz * int m + c = 0")
    case True
    have "0 \<le> int fsz * int m" by simp
    with True assms(2) have "int fsz * int m = 0" by linarith
    then have "m = 0" using assms(1) by simp
    then show ?thesis using True by simp
  next
    case False
    then have pos: "0 < int fsz * int m + c"
      using assms(2) by (simp add: add_nonneg_pos less_le)
    have "(int fsz * int m + c) sdiv int fsz = (int fsz * int m + c) div int fsz"
      using assms(1) pos by (simp add: signed_divide_int_def sgn_if)
    also have "\<dots> = int m"
      using assms by simp
    finally show ?thesis .
  qed
qed

lemma cart_read_past_slots:
  assumes op: "open_at s fd k"
    and m: "length (occupiedCartridges (location (filesystem s ! k))) = m"
    and ptr: "filePointer (filesystem s ! k) = int frame_size * int m"
    and fr: "0 \<le> frames (location (filesystem s ! k))"
    and cnt: "0 \<le> cnt" "cnt < int frame_size"
  shows "cart_read frame_size fd cnt s = Inl (IndexOutOfBounds (int m) m)"
proof -
  have fsz: "0 < frame_size" using cnt by simp
  have st: "filePointer (filesystem s ! k) sdiv int frame_size = int m"
    using sdiv_exact [OF fsz, of 0 m] ptr fsz by simp
  have en: "(filePointer (filesystem s ! k) + cnt) sdiv int frame_size = int m"
    using sdiv_exact [OF fsz cnt, of m] ptr by simp
  have idx: "[0..min 0 (frames (location (filesystem s ! k)))] = [0]"
    using fr by (simp add: upto.simps)
  have ag: "array_get (occupiedCartridges (location (filesystem s ! k))) (0 + int m)
      = Inl (IndexOutOfBounds (int m) m)"
    using m by (simp add: array_get_def)
  have ff: "fetch_frame frame_size k (int m) 0 lb s = Inl (IndexOutOfBounds (int m) m)" for lb
    using ag by (simp add: fetch_frame_def)
  have found: "find_fd (filesystem s) fd [0..<Suc (fileSystemSize s)] = Inr (Some k)"
    using op by (rule find_fd_first)
  have opn: "fileHandle (filesystem s ! k) \<noteq> 0"
    using op by (simp add: open_at_def)
  show ?thesis
    using opn by (simp add: cart_read_def found Let_def st en idx ff del: upt_Suc)
qed

text \<open>The state in which the read below starts: one file, 1024 bytes, pointer 1024, one slot.\<close>

lemma full_frame_written_slots:
  "slot_table full_frame_written = Inr (1024, [(1024, 1024, 0, 1, 1)])"
  by code_simp

text \<open>
  C7. The code does not do what the claim says. A new file is written with one full
  frame (1024 bytes), which leaves one slot allocated and the pointer at 1024. A read
  of one byte then has \<^verbatim>\<open>startFrameIndex = 1\<close>; the loop guard compares \<open>i = 0\<close> with
  \<^verbatim>\<open>location.frames = 0\<close> and lets the body index the slot arrays at
  \<^verbatim>\<open>i + startFrameIndex = 1\<close>, with one element allocated.
\<close>

theorem read_at_end_out_of_bounds:
  "result read_at_end_scenario = Inl (IndexOutOfBounds 1 1)"
  by code_simp

text \<open>
  C2. The code does not do what the claim says. Writing the two bytes 00 41 to a new
  file, seeking to 0 and reading two bytes returns 2, and the bytes read are 00 00:
  \<^verbatim>\<open>strncpy\<close> stops at the zero byte and pads with zero bytes.
\<close>

theorem round_trip_drops_bytes_after_nul:
  "result (round_trip_scenario [0x00, 0x41]) = Inr (2, [0x00, 0x00])"
  by code_simp

text \<open>The same run with the five bytes of \<^verbatim>\<open>hello\<close>, none of them zero, returns them.\<close>

lemma round_trip_hello:
  "result (round_trip_scenario [0x68, 0x65, 0x6c, 0x6c, 0x6f])
     = Inr (5, [0x68, 0x65, 0x6c, 0x6c, 0x6f])"
  by code_simp

end
